theory Spec2Isabelle
  imports Main "HOL-Library.Word"
begin

unbundle bit_operations_syntax

section \<open>Data model of \<open>src/pipewire/node.c\<close>\<close>

text \<open>
  The development embeds the node object of the graph server: its state machine and
  driver bookkeeping on the main thread, and the decrement-and-signal walk that runs
  on the data loop. Pointers are addresses (\<open>nat\<close>); a pointer the code tests
  against \<open>NULL\<close> is an \<open>option\<close>. Everything a call emits to listeners, to the
  backend or to the log is appended, in program order, to one trace.
\<close>

type_synonym u32 = "32 word"
type_synonym u64 = "64 word"
type_synonym node_ptr = nat
type_synonym act_ptr = nat

text \<open>
  Modelled from the spec: \<open>enum pw_node_state\<close> is declared in a header that is not
  among the sources. Section 3 lists the states; \<open>state_value\<close> numbers them in the
  order of the state machine of section 4.4 (creating, suspended, idle, running), with
  the error state below all of them. \<open>pause_node\<close> and \<open>start_node\<close> compare
  these numbers.
\<close>

datatype pw_node_state =
    PW_NODE_STATE_ERROR
  | PW_NODE_STATE_CREATING
  | PW_NODE_STATE_SUSPENDED
  | PW_NODE_STATE_IDLE
  | PW_NODE_STATE_RUNNING

fun state_value :: "pw_node_state \<Rightarrow> int" where
  "state_value PW_NODE_STATE_ERROR = -1"
| "state_value PW_NODE_STATE_CREATING = 0"
| "state_value PW_NODE_STATE_SUSPENDED = 1"
| "state_value PW_NODE_STATE_IDLE = 2"
| "state_value PW_NODE_STATE_RUNNING = 3"

datatype pw_port_state =
    PW_PORT_STATE_INIT
  | PW_PORT_STATE_CONFIGURE
  | PW_PORT_STATE_READY
  | PW_PORT_STATE_PAUSED

text \<open>The four values of an activation's \<open>status\<close> field.\<close>

datatype act_status = NOT_TRIGGERED | TRIGGERED | AWAKE | FINISHED

text \<open>\<open>struct pw_node_activation_state\<close>: one (pending, required) counter pair.\<close>

record pw_node_activation_state =
  st_status :: int
  required :: u32
  pending :: u32

text \<open>
  \<open>struct pw_node_activation\<close>, the record in shared memory. Only \<open>state[0]\<close> is
  used by this file. The embedded position block is represented by its address
  (\<open>io_area\<close> below), its contents are not read here.
\<close>

record pw_node_activation =
  state0 :: pw_node_activation_state
  a_status :: act_status
  signal_time :: u64
  awake_time :: u64
  finish_time :: u64
  running :: bool

text \<open>
  \<open>struct pw_node_target\<close>. Every target this file creates has \<open>process_node\<close>
  as its \<open>signal\<close> function (\<open>pw_node_new\<close> installs it in both entries of a
  node), so the function pointer is not a field of the model.
\<close>

record pw_node_target =
  t_node :: "node_ptr option"
  t_activation :: act_ptr
  t_data :: node_ptr

text \<open>
  A target list links the \<open>target\<close> and \<open>driver_target\<close> structs embedded in
  the nodes; an entry of a list is a reference to one of them, so an update of the
  struct is seen through the list, as in the source.
\<close>

datatype target_ref = Target node_ptr | Driver_target node_ptr

datatype spa_command = SPA_NODE_COMMAND_Pause | SPA_NODE_COMMAND_Start | SPA_NODE_COMMAND_Suspend

datatype spa_io = SPA_IO_Position | SPA_IO_Clock

text \<open>What an io pointer points at: fields of an activation record.\<close>

datatype io_area = Activation_position act_ptr | Activation_clock act_ptr

text \<open>
  The backend behind \<open>struct spa_node *\<close>. Its methods are external code; the model
  keeps what each call returns to the node. The calls themselves are recorded in the
  trace.
\<close>

record spa_node =
  impl_send_command :: "spa_command \<Rightarrow> int"
  impl_set_io :: "spa_io \<Rightarrow> int"
  impl_add_listener :: int
  impl_sync :: "int \<Rightarrow> int"
  impl_process :: int

record pw_port =
  port_id :: u32
  p_state :: pw_port_state
  links :: "nat list"

datatype change_flag =
    PW_NODE_CHANGE_MASK_STATE
  | PW_NODE_CHANGE_MASK_PROPS
  | PW_NODE_CHANGE_MASK_PARAMS

text \<open>
  Modelled from the spec: the work queue is implemented outside the sources. Section
  4.6: a FIFO of \<open>{owner, sequence, callback, userdata}\<close> entries. The only callback
  this file queues is \<open>on_state_complete\<close>, with the requested state as user data.
  The sequence is present when the queued result is asynchronous.
\<close>

record work_item =
  wi_obj :: node_ptr
  wi_seq :: "nat option"
  wi_res :: int
  wi_data :: pw_node_state

text \<open>\<open>struct pw_node\<close> together with the fields of \<open>struct impl\<close>.\<close>

record pw_node =
  info_name :: string
  info_state :: pw_node_state
  info_error :: "string option"
  info_change_mask :: "change_flag set"
  global :: "nat list option"
  properties :: "string \<rightharpoonup> string"
  active :: bool
  driver :: bool
  master :: bool
  exported :: bool
  driver_node :: node_ptr
  node_impl :: "spa_node option"
  quantum_size :: u32
  n_ready_output_links :: u32
  n_used_output_links :: u32
  n_ready_input_links :: u32
  n_used_input_links :: u32
  input_ports :: "pw_port list"
  output_ports :: "pw_port list"
  source_loop :: bool
  rt_position :: "io_area option"
  rt_clock :: "io_area option"
  rt_activation :: act_ptr
  rt_target :: pw_node_target
  rt_driver_target :: pw_node_target
  rt_target_list :: "target_ref list"
  work :: "work_item list"
  last_error :: int
  pause_on_idle :: bool

text \<open>
  Everything observable that a call produces, in program order: events emitted to the
  node's listeners and resources, calls into the backend, calls into ports and links,
  the log lines the claims are about, and the calls of a target's signal function.
\<close>

datatype event =
    Emit_state_request node_ptr pw_node_state
  | Emit_state_changed node_ptr pw_node_state pw_node_state "string option"
  | Emit_info_changed node_ptr pw_node_state "string option"
  | Resource_info nat node_ptr
  | Emit_driver_changed node_ptr node_ptr node_ptr
  | Emit_result node_ptr int int
  | Emit_initialized node_ptr
  | Backend_send_command node_ptr spa_command
  | Backend_set_io node_ptr spa_io io_area
  | Backend_set_callbacks node_ptr
  | Backend_add_listener node_ptr
  | Backend_sync node_ptr int
  | Backend_process node_ptr
  | Port_unset_format node_ptr u32
  | Link_activate nat
  | Link_deactivate nat
  | Log_graph_not_finished node_ptr
  | Log_state "node_ptr option" string u32 u64 u64 u64 u64 u64 act_status
  | Log_pending "node_ptr option" act_ptr u32 u32
  | Signal_target act_ptr node_ptr

record world =
  nodes :: "node_ptr \<Rightarrow> pw_node"
  acts :: "act_ptr \<Rightarrow> pw_node_activation"
  trace :: "event list"
  driver_list :: "node_ptr list"
  ticks :: nat

text \<open>
  What the file takes from code that is not among the sources: constants and macros of
  private headers, the property parser, libc's \<open>sscanf\<close>, the monotonic clock, and
  the port and link objects. Each is a parameter; the theorems hold for every choice,
  unless a hypothesis says otherwise.
  \<^item> \<open>sscanf_latency str\<close> is \<open>Some (num, denom)\<close> when
    \<open>sscanf(str, "%u/%u", &num, &denom)\<close> returns 2.
  \<^item> \<open>clock_at i\<close> is what the \<open>i\<close>-th read of \<open>CLOCK_MONOTONIC\<close> returns, in
    nanoseconds.
  \<^item> \<open>port_unset_format p\<close> is the result of \<open>pw_port_set_param(p, Format, 0, NULL)\<close>.
  \<^item> \<open>link_activate l\<close> and \<open>link_deactivate l\<close> are what \<open>pw_link_activate\<close>
    and \<open>pw_link_deactivate\<close> do to the node whose port holds the link.
\<close>

record env =
  DEFAULT_QUANTUM :: u32
  parse_bool :: "string \<Rightarrow> bool"
  sscanf_latency :: "string \<Rightarrow> (u32 \<times> u32) option"
  SPA_RESULT_IS_ERROR :: "int \<Rightarrow> bool"
  SPA_RESULT_IS_ASYNC :: "int \<Rightarrow> bool"
  SPA_RESULT_ASYNC_SEQ :: "int \<Rightarrow> nat"
  clock_at :: "nat \<Rightarrow> u64"
  port_unset_format :: "pw_port \<Rightarrow> int"
  link_activate :: "nat \<Rightarrow> pw_node \<Rightarrow> pw_node"
  link_deactivate :: "nat \<Rightarrow> pw_node \<Rightarrow> pw_node"

text \<open>
  A call that dereferences a \<open>NULL\<close> backend pointer does not return; neither does a
  signal cascade that outruns the recursion bound of the model.
\<close>

datatype fault = Null_backend | Out_of_fuel

definition EEXIST :: int where
  "EEXIST = 17"

definition EIO :: int where
  "EIO = 5"

definition SPA_STATUS_OK :: int where
  "SPA_STATUS_OK = 0"

subsection \<open>Store access\<close>

definition upd_node :: "node_ptr \<Rightarrow> (pw_node \<Rightarrow> pw_node) \<Rightarrow> world \<Rightarrow> world" where
  "upd_node n f w = w\<lparr>nodes := (nodes w)(n := f (nodes w n))\<rparr>"

definition upd_act :: "act_ptr \<Rightarrow> (pw_node_activation \<Rightarrow> pw_node_activation) \<Rightarrow> world \<Rightarrow> world" where
  "upd_act a f w = w\<lparr>acts := (acts w)(a := f (acts w a))\<rparr>"

definition emit :: "event \<Rightarrow> world \<Rightarrow> world" where
  "emit ev w = w\<lparr>trace := trace w @ [ev]\<rparr>"

definition target_of :: "world \<Rightarrow> target_ref \<Rightarrow> pw_node_target" where
  "target_of w r =
     (case r of Target m \<Rightarrow> rt_target (nodes w m)
              | Driver_target m \<Rightarrow> rt_driver_target (nodes w m))"

text \<open>\<open>clock_gettime(CLOCK_MONOTONIC, &ts)\<close> and \<open>SPA_TIMESPEC_TO_NSEC\<close>.\<close>

definition clock_gettime :: "env \<Rightarrow> world \<Rightarrow> u64 \<times> world" where
  "clock_gettime e w = (clock_at e (ticks w), w\<lparr>ticks := Suc (ticks w)\<rparr>)"

subsection \<open>Activation counters\<close>

text \<open>
  Modelled from the spec: the activation primitives are macros and inline functions of
  a private header that is not among the sources. Section 4.1: \<open>reset\<close> sets
  \<open>pending := required\<close>; \<open>dec_pending\<close> atomically decrements \<open>pending\<close> and
  returns true if it became zero. The counters are 32 bits wide (section 6), so the
  subtraction wraps.
\<close>

definition pw_node_activation_state_reset :: "pw_node_activation_state \<Rightarrow> pw_node_activation_state" where
  "pw_node_activation_state_reset s = s\<lparr>pending := required s\<rparr>"

definition pw_node_activation_state_dec ::
    "pw_node_activation_state \<Rightarrow> u32 \<Rightarrow> bool \<times> pw_node_activation_state" where
  "pw_node_activation_state_dec s c = (pending s - c = 0, s\<lparr>pending := pending s - c\<rparr>)"

definition inc_required :: "act_ptr \<Rightarrow> world \<Rightarrow> world" where
  "inc_required a w = upd_act a (\<lambda>x. x\<lparr>state0 := (state0 x)\<lparr>required := required (state0 x) + 1\<rparr>\<rparr>) w"

definition dec_required :: "act_ptr \<Rightarrow> world \<Rightarrow> world" where
  "dec_required a w = upd_act a (\<lambda>x. x\<lparr>state0 := (state0 x)\<lparr>required := required (state0 x) - 1\<rparr>\<rparr>) w"

subsection \<open>Properties: \<open>flp2\<close> and \<open>check_properties\<close>\<close>

definition flp2 :: "u32 \<Rightarrow> u32" where
  "flp2 x0 =
     (let x = x0 OR drop_bit 1 x0;
          x = x OR drop_bit 2 x;
          x = x OR drop_bit 4 x;
          x = x OR drop_bit 8 x;
          x = x OR drop_bit 16 x
      in x - drop_bit 1 x)"

text \<open>The value of \<open>x\<close> in \<open>flp2\<close> before the final subtraction.\<close>

definition flp2_smear :: "u32 \<Rightarrow> u32" where
  "flp2_smear x0 =
     (let x = x0 OR drop_bit 1 x0;
          x = x OR drop_bit 2 x;
          x = x OR drop_bit 4 x;
          x = x OR drop_bit 8 x;
          x = x OR drop_bit 16 x
      in x)"

text \<open>
  \<open>check_properties\<close>: the three properties are read in the order of the source. The
  arithmetic on \<open>num\<close> and \<open>denom\<close> is that of \<open>uint32_t\<close>: the product wraps
  and the division is unsigned.
\<close>

definition check_properties :: "env \<Rightarrow> node_ptr \<Rightarrow> world \<Rightarrow> world" where
  "check_properties e n w0 =
     (let props = properties (nodes w0 n);
          w = upd_node n (\<lambda>x. x\<lparr>pause_on_idle :=
                (case props ''node.pause-on-idle'' of
                   Some str \<Rightarrow> parse_bool e str
                 | None \<Rightarrow> True)\<rparr>) w0;
          drv = (case props ''node.driver'' of
                   Some str \<Rightarrow> parse_bool e str
                 | None \<Rightarrow> False);
          w = (if driver (nodes w n) \<noteq> drv
               then (upd_node n (\<lambda>x. x\<lparr>driver := drv\<rparr>) w)
                      \<lparr>driver_list := (if drv then driver_list w @ [n]
                                       else removeAll n (driver_list w))\<rparr>
               else w)
      in (case props ''node.latency'' of
            Some str \<Rightarrow>
              (case sscanf_latency e str of
                 Some (num, denom) \<Rightarrow>
                   if denom \<noteq> 0
                   then upd_node n (\<lambda>x. x\<lparr>quantum_size := flp2 (num * 48000 div denom)\<rparr>) w
                   else w
               | None \<Rightarrow> w)
          | None \<Rightarrow> upd_node n (\<lambda>x. x\<lparr>quantum_size := DEFAULT_QUANTUM e\<rparr>) w))"

subsection \<open>Target lists: \<open>add_node\<close>, \<open>remove_node\<close> and the invoked functions\<close>

text \<open>
  \<open>spa_list_remove\<close> unlinks the struct from the list it is in; a struct is linked in
  one list at most, so the model removes the reference wherever it is.
\<close>

definition unlink_target :: "target_ref \<Rightarrow> world \<Rightarrow> world" where
  "unlink_target r w =
     w\<lparr>nodes := (\<lambda>m. (nodes w m)\<lparr>rt_target_list := removeAll r (rt_target_list (nodes w m))\<rparr>)\<rparr>"

definition add_node :: "node_ptr \<Rightarrow> node_ptr \<Rightarrow> world \<Rightarrow> world" where
  "add_node this drv w0 =
     (let w = upd_node this (\<lambda>x. x\<lparr>rt_driver_target :=
                 \<lparr>t_node = Some drv, t_activation = rt_activation (nodes w0 drv), t_data = drv\<rparr>\<rparr>) w0;
          w = upd_node this (\<lambda>x. x\<lparr>rt_target_list := rt_target_list x @ [Driver_target this]\<rparr>) w;
          w = inc_required (t_activation (rt_driver_target (nodes w this))) w;
          w = upd_node drv (\<lambda>x. x\<lparr>rt_target_list := rt_target_list x @ [Target this]\<rparr>) w
      in inc_required (rt_activation (nodes w this)) w)"

definition remove_node :: "node_ptr \<Rightarrow> world \<Rightarrow> world" where
  "remove_node this w0 =
     (let w = unlink_target (Driver_target this) w0;
          w = dec_required (t_activation (rt_driver_target (nodes w this))) w;
          w = unlink_target (Target this) w
      in dec_required (rt_activation (nodes w this)) w)"

text \<open>
  \<open>pw_loop_invoke\<close> is called with \<open>block = true\<close>: the caller continues after the
  data loop has run the function, so the model calls it in place.
  \<open>spa_loop_add_source\<close> and \<open>spa_loop_remove_source\<close> set and clear
  \<open>source.loop\<close>.
\<close>

definition do_node_add :: "node_ptr \<Rightarrow> world \<Rightarrow> world" where
  "do_node_add this w =
     (let drv = driver_node (nodes w this) in
      if \<not> source_loop (nodes w this)
      then add_node this drv (upd_node this (\<lambda>x. x\<lparr>source_loop := True\<rparr>) w)
      else w)"

definition do_node_remove :: "node_ptr \<Rightarrow> world \<Rightarrow> world" where
  "do_node_remove this w =
     (if source_loop (nodes w this)
      then remove_node this (upd_node this (\<lambda>x. x\<lparr>source_loop := False\<rparr>) w)
      else w)"

definition do_move_nodes :: "node_ptr \<Rightarrow> node_ptr \<Rightarrow> world \<Rightarrow> world" where
  "do_move_nodes this drv w =
     (if source_loop (nodes w this) then add_node this drv (remove_node this w) else w)"

subsection \<open>State changes\<close>

fun resource_infos :: "node_ptr \<Rightarrow> nat list \<Rightarrow> event list" where
  "resource_infos n [] = []"
| "resource_infos n (r # rs) = Resource_info r n # resource_infos n rs"

definition emit_info_changed :: "node_ptr \<Rightarrow> world \<Rightarrow> world" where
  "emit_info_changed n w =
     (if info_change_mask (nodes w n) = {} then w
      else
        (let x = nodes w n;
             w = emit (Emit_info_changed n (info_state x) (info_error x)) w;
             w = (case global x of
                    Some rs \<Rightarrow> w\<lparr>trace := trace w @ resource_infos n rs\<rparr>
                  | None \<Rightarrow> w)
         in upd_node n (\<lambda>x. x\<lparr>info_change_mask := {}\<rparr>) w))"

definition node_update_state :: "node_ptr \<Rightarrow> pw_node_state \<Rightarrow> string option \<Rightarrow> world \<Rightarrow> world" where
  "node_update_state n state error w0 =
     (let old = info_state (nodes w0 n) in
      if old = state then w0
      else
        (let w = upd_node n (\<lambda>x. x\<lparr>info_error := error, info_state := state\<rparr>) w0;
             w = (case state of
                    PW_NODE_STATE_RUNNING \<Rightarrow> do_node_add n w
                  | _ \<Rightarrow> w);
             w = emit (Emit_state_changed n old state error) w;
             w = upd_node n (\<lambda>x. x\<lparr>info_change_mask :=
                   info_change_mask x \<union> {PW_NODE_CHANGE_MASK_STATE}\<rparr>) w
         in emit_info_changed n w))"

definition pw_node_initialized :: "node_ptr \<Rightarrow> world \<Rightarrow> int \<times> world" where
  "pw_node_initialized n w =
     (0, node_update_state n PW_NODE_STATE_SUSPENDED None (emit (Emit_initialized n) w))"

text \<open>The loop of \<open>suspend_node\<close> over one port list; \<open>res\<close> is the last result.\<close>

fun unset_formats :: "env \<Rightarrow> node_ptr \<Rightarrow> pw_port list \<Rightarrow> int \<Rightarrow> int \<times> pw_port list \<times> event list" where
  "unset_formats e n [] res = (res, [], [])"
| "unset_formats e n (p # ps) res =
     (let r = port_unset_format e p;
          (res', ps', evs) = unset_formats e n ps r
      in (res', p\<lparr>p_state := PW_PORT_STATE_CONFIGURE\<rparr> # ps', Port_unset_format n (port_id p) # evs))"

definition suspend_node :: "env \<Rightarrow> node_ptr \<Rightarrow> world \<Rightarrow> int \<times> world" where
  "suspend_node e n w0 =
     (let (r1, ins, ev1) = unset_formats e n (input_ports (nodes w0 n)) 0;
          (r2, outs, ev2) = unset_formats e n (output_ports (nodes w0 n)) r1;
          w = upd_node n (\<lambda>x. x\<lparr>input_ports := ins, output_ports := outs\<rparr>) w0;
          w = w\<lparr>trace := trace w @ ev1 @ ev2\<rparr>
      in (r2, node_update_state n PW_NODE_STATE_SUSPENDED None w))"

definition node_links :: "pw_node \<Rightarrow> nat list" where
  "node_links x = concat (map links (input_ports x)) @ concat (map links (output_ports x))"

fun activate_links :: "env \<Rightarrow> node_ptr \<Rightarrow> nat list \<Rightarrow> world \<Rightarrow> world" where
  "activate_links e n [] w = w"
| "activate_links e n (l # ls) w =
     activate_links e n ls (upd_node n (link_activate e l) (emit (Link_activate l) w))"

fun deactivate_links :: "env \<Rightarrow> node_ptr \<Rightarrow> nat list \<Rightarrow> world \<Rightarrow> world" where
  "deactivate_links e n [] w = w"
| "deactivate_links e n (l # ls) w =
     deactivate_links e n ls (upd_node n (link_deactivate e l) (emit (Link_deactivate l) w))"

definition node_activate :: "env \<Rightarrow> node_ptr \<Rightarrow> world \<Rightarrow> world" where
  "node_activate e n w = activate_links e n (node_links (nodes w n)) w"

definition node_deactivate :: "env \<Rightarrow> node_ptr \<Rightarrow> world \<Rightarrow> world" where
  "node_deactivate e n w = deactivate_links e n (node_links (nodes w n)) w"

definition spa_node_send_command :: "node_ptr \<Rightarrow> spa_command \<Rightarrow> world \<Rightarrow> fault + (int \<times> world)" where
  "spa_node_send_command n c w =
     (case node_impl (nodes w n) of
        None \<Rightarrow> Inl Null_backend
      | Some b \<Rightarrow> Inr (impl_send_command b c, emit (Backend_send_command n c) w))"

definition spa_node_sync :: "node_ptr \<Rightarrow> int \<Rightarrow> world \<Rightarrow> fault + (int \<times> world)" where
  "spa_node_sync n seq w =
     (case node_impl (nodes w n) of
        None \<Rightarrow> Inl Null_backend
      | Some b \<Rightarrow> Inr (impl_sync b seq, emit (Backend_sync n seq) w))"

definition pause_node :: "env \<Rightarrow> node_ptr \<Rightarrow> world \<Rightarrow> fault + (int \<times> world)" where
  "pause_node e n w =
     (if state_value (info_state (nodes w n)) \<le> state_value PW_NODE_STATE_IDLE then Inr (0, w)
      else spa_node_send_command n SPA_NODE_COMMAND_Pause (do_node_remove n (node_deactivate e n w)))"

definition start_node :: "node_ptr \<Rightarrow> world \<Rightarrow> fault + (int \<times> world)" where
  "start_node n w =
     (let x = nodes w n in
      if state_value (info_state x) \<ge> state_value PW_NODE_STATE_RUNNING then Inr (0, w)
      else if n_ready_output_links x \<noteq> n_used_output_links x \<or>
              n_ready_input_links x \<noteq> n_used_input_links x then Inr (0, w)
      else spa_node_send_command n SPA_NODE_COMMAND_Start w)"

subsection \<open>Work queue and completion of a state change\<close>

text \<open>
  Modelled from the spec: \<open>pw_work_queue_add\<close> and \<open>pw_work_queue_complete\<close> are
  implemented outside the sources. Section 4.6: \<open>add\<close> appends an entry; completion
  invokes the first entry of the owner whose sequence equals the completed one, then
  removes it. The callback of every entry is \<open>on_state_complete\<close>.
\<close>

definition pw_work_queue_add :: "env \<Rightarrow> node_ptr \<Rightarrow> int \<Rightarrow> pw_node_state \<Rightarrow> world \<Rightarrow> world" where
  "pw_work_queue_add e n res state w =
     upd_node n (\<lambda>x. x\<lparr>work := work x @
        [\<lparr>wi_obj = n,
          wi_seq = (if SPA_RESULT_IS_ASYNC e res then Some (SPA_RESULT_ASYNC_SEQ e res) else None),
          wi_res = res,
          wi_data = state\<rparr>]\<rparr>) w"

definition work_matches :: "node_ptr \<Rightarrow> nat \<Rightarrow> work_item \<Rightarrow> bool" where
  "work_matches obj seq it \<longleftrightarrow> wi_obj it = obj \<and> wi_seq it = Some seq"

fun remove_first :: "('a \<Rightarrow> bool) \<Rightarrow> 'a list \<Rightarrow> 'a list" where
  "remove_first P [] = []"
| "remove_first P (x # xs) = (if P x then xs else x # remove_first P xs)"

text \<open>The decimal digits \<open>%d\<close> prints.\<close>

function show_nat :: "nat \<Rightarrow> string" where
  "show_nat n =
     (if n < 10 then [char_of (48 + n)]
      else show_nat (n div 10) @ [char_of (48 + n mod 10)])"
  by pat_completeness auto
termination
  by (relation "measure id") auto

definition show_int :: "int \<Rightarrow> string" where
  "show_int i = (if i < 0 then CHR ''-'' # show_nat (nat (- i)) else show_nat (nat i))"

definition on_state_complete :: "env \<Rightarrow> node_ptr \<Rightarrow> pw_node_state \<Rightarrow> int \<Rightarrow> world \<Rightarrow> world" where
  "on_state_complete e n data res w =
     (if SPA_RESULT_IS_ERROR e res
      then node_update_state n PW_NODE_STATE_ERROR
             (Some (''error changing node state: '' @ show_int res)) w
      else node_update_state n data None w)"

definition pw_work_queue_complete :: "env \<Rightarrow> node_ptr \<Rightarrow> nat \<Rightarrow> int \<Rightarrow> world \<Rightarrow> world" where
  "pw_work_queue_complete e obj seq res w =
     (case find (work_matches obj seq) (work (nodes w obj)) of
        None \<Rightarrow> w
      | Some it \<Rightarrow>
          upd_node obj (\<lambda>x. x\<lparr>work := remove_first (work_matches obj seq) (work x)\<rparr>)
            (on_state_complete e (wi_obj it) (wi_data it) res w))"

definition node_result :: "env \<Rightarrow> node_ptr \<Rightarrow> int \<Rightarrow> int \<Rightarrow> world \<Rightarrow> world" where
  "node_result e n seq res w0 =
     (let w = upd_node n (\<lambda>x. x\<lparr>last_error := res\<rparr>) w0;
          w = (if SPA_RESULT_IS_ASYNC e seq
               then pw_work_queue_complete e n (SPA_RESULT_ASYNC_SEQ e seq) res w
               else w)
      in emit (Emit_result n seq res) w)"

subsection \<open>\<open>pw_node_set_state\<close>\<close>

text \<open>
  The \<open>switch\<close> of \<open>pw_node_set_state\<close>: the result of the branch taken. The
  branch for \<open>creating\<close> returns from the function and is handled by the caller
  below.
\<close>

definition set_state_switch :: "env \<Rightarrow> node_ptr \<Rightarrow> pw_node_state \<Rightarrow> world \<Rightarrow> fault + (int \<times> world)" where
  "set_state_switch e n state w =
     (case state of
        PW_NODE_STATE_CREATING \<Rightarrow> Inr (- EIO, w)
      | PW_NODE_STATE_SUSPENDED \<Rightarrow> Inr (suspend_node e n w)
      | PW_NODE_STATE_IDLE \<Rightarrow>
          if active (nodes w n) \<and> pause_on_idle (nodes w n) then pause_node e n w
          else Inr (0, w)
      | PW_NODE_STATE_RUNNING \<Rightarrow>
          if active (nodes w n) then start_node n (node_activate e n w)
          else Inr (0, w)
      | PW_NODE_STATE_ERROR \<Rightarrow> Inr (0, w))"

definition pw_node_set_state :: "env \<Rightarrow> node_ptr \<Rightarrow> pw_node_state \<Rightarrow> world \<Rightarrow> fault + (int \<times> world)" where
  "pw_node_set_state e n state w0 =
     (let old = info_state (nodes w0 n) in
      if old = state then Inr (0, w0)
      else
        (case set_state_switch e n state (emit (Emit_state_request n state) w0) of
           Inl f \<Rightarrow> Inl f
         | Inr (res, w) \<Rightarrow>
             if state = PW_NODE_STATE_CREATING then Inr (res, w)
             else if SPA_RESULT_IS_ERROR e res then Inr (res, w)
             else
               (case (if SPA_RESULT_IS_ASYNC e res then spa_node_sync n res w else Inr (res, w)) of
                  Inl f \<Rightarrow> Inl f
                | Inr (res', w') \<Rightarrow> Inr (res', pw_work_queue_add e n res' state w'))))"

subsection \<open>Driver assignment, backend attachment, construction\<close>

text \<open>The \<open>driver\<close> argument is a pointer that may be \<open>NULL\<close>.\<close>

definition pw_node_set_driver :: "node_ptr \<Rightarrow> node_ptr option \<Rightarrow> world \<Rightarrow> fault + (int \<times> world)" where
  "pw_node_set_driver n d w0 =
     (let old = driver_node (nodes w0 n);
          drv = (case d of None \<Rightarrow> n | Some x \<Rightarrow> x)
      in if old = drv then Inr (0, w0)
         else
           (let w = upd_node n (\<lambda>x. x\<lparr>master := (driver x \<and> drv = n)\<rparr>) w0;
                w = upd_node n (\<lambda>x. x\<lparr>driver_node := drv\<rparr>) w;
                w = emit (Emit_driver_changed n old drv) w
            in case node_impl (nodes w n) of
                 None \<Rightarrow> Inl Null_backend
               | Some b \<Rightarrow>
                   (let area = Activation_position (rt_activation (nodes w drv));
                        w = emit (Backend_set_io n SPA_IO_Position area) w;
                        w = (if impl_set_io b SPA_IO_Position < 0 then w
                             else upd_node n (\<lambda>x. x\<lparr>rt_position := Some area\<rparr>) w)
                    in Inr (0, do_move_nodes n drv w))))"

definition pw_node_set_implementation :: "node_ptr \<Rightarrow> spa_node \<Rightarrow> world \<Rightarrow> int \<times> world" where
  "pw_node_set_implementation n b w0 =
     (case node_impl (nodes w0 n) of
        Some old \<Rightarrow> (- EEXIST, w0)
      | None \<Rightarrow>
          (let w = upd_node n (\<lambda>x. x\<lparr>node_impl := Some b\<rparr>) w0;
               w = emit (Backend_set_callbacks n) w;
               res = impl_add_listener b;
               w = emit (Backend_add_listener n) w;
               pos = Activation_position (rt_activation (nodes w n));
               w = emit (Backend_set_io n SPA_IO_Position pos) w;
               w = (if impl_set_io b SPA_IO_Position \<ge> 0
                    then upd_node n (\<lambda>x. x\<lparr>rt_position := Some pos\<rparr>) w else w);
               clk = Activation_clock (rt_activation (nodes w n));
               w = emit (Backend_set_io n SPA_IO_Clock clk) w;
               w = (if impl_set_io b SPA_IO_Clock \<ge> 0
                    then upd_node n (\<lambda>x. x\<lparr>rt_clock := Some clk\<rparr>) w else w)
           in (res, w)))"

text \<open>The memory \<open>calloc\<close> and the shared memory block return: every field zero.\<close>

definition zero_target :: pw_node_target where
  "zero_target = \<lparr>t_node = None, t_activation = 0, t_data = 0\<rparr>"

definition zero_activation :: pw_node_activation where
  "zero_activation =
     \<lparr>state0 = \<lparr>st_status = 0, required = 0, pending = 0\<rparr>, a_status = NOT_TRIGGERED,
      signal_time = 0, awake_time = 0, finish_time = 0, running = False\<rparr>"

definition zero_node :: pw_node where
  "zero_node =
     \<lparr>info_name = [], info_state = PW_NODE_STATE_CREATING, info_error = None,
      info_change_mask = {}, global = None, properties = Map.empty,
      active = False, driver = False, master = False, exported = False,
      driver_node = 0, node_impl = None, quantum_size = 0,
      n_ready_output_links = 0, n_used_output_links = 0,
      n_ready_input_links = 0, n_used_input_links = 0,
      input_ports = [], output_ports = [], source_loop = False,
      rt_position = None, rt_clock = None, rt_activation = 0,
      rt_target = zero_target, rt_driver_target = zero_target, rt_target_list = [],
      work = [], last_error = 0, pause_on_idle = False\<rparr>"

text \<open>
  \<open>pw_node_new\<close>. The allocations (\<open>calloc\<close>, the properties, the eventfd, the
  memory block, the work queue) are external: \<open>alloc\<close> is \<open>None\<close> when one of
  them fails, and otherwise the addresses of the new node and of its activation record.
  The result is the pointer returned (\<open>None\<close> for \<open>NULL\<close>).
\<close>

definition pw_node_new ::
    "env \<Rightarrow> (node_ptr \<times> act_ptr) option \<Rightarrow> string option \<Rightarrow> (string \<rightharpoonup> string) option \<Rightarrow> world
       \<Rightarrow> node_ptr option \<times> world" where
  "pw_node_new e alloc name props w0 =
     (case alloc of
        None \<Rightarrow> (None, w0)
      | Some (this, act) \<Rightarrow>
          (let w = w0\<lparr>nodes := (nodes w0)(this := zero_node), acts := (acts w0)(act := zero_activation)\<rparr>;
               w = upd_node this (\<lambda>x. x\<lparr>
                     properties := (case props of None \<Rightarrow> Map.empty | Some p \<Rightarrow> p),
                     info_name := (case name of None \<Rightarrow> ''node'' | Some s \<Rightarrow> s),
                     info_state := PW_NODE_STATE_CREATING,
                     rt_activation := act,
                     rt_target := \<lparr>t_node = Some this, t_activation = act, t_data = this\<rparr>\<rparr>) w;
               w = check_properties e this w;
               w = upd_node this (\<lambda>x. x\<lparr>driver_node := this, master := True\<rparr>) w
           in (Some this, w)))"

subsection \<open>The data loop: \<open>process_node\<close>, \<open>resume_node\<close>, \<open>node_ready\<close>\<close>

definition dump_line :: "world \<Rightarrow> target_ref \<Rightarrow> event" where
  "dump_line w r =
     (let t = target_of w r; a = acts w (t_activation t)
      in Log_state (t_node t)
           (case t_node t of Some m \<Rightarrow> info_name (nodes w m) | None \<Rightarrow> [])
           (required (state0 a)) (signal_time a) (awake_time a) (finish_time a)
           (awake_time a - signal_time a) (finish_time a - awake_time a)
           (a_status a))"

definition dump_states :: "node_ptr \<Rightarrow> world \<Rightarrow> world" where
  "dump_states drv w = w\<lparr>trace := trace w @ map (dump_line w) (rt_target_list (nodes w drv))\<rparr>"

text \<open>The reset loop of \<open>node_ready\<close> over the driver's target list.\<close>

fun reset_targets :: "target_ref list \<Rightarrow> world \<Rightarrow> world" where
  "reset_targets [] w = w"
| "reset_targets (r # rs) w =
     (let a = t_activation (target_of w r);
          w = upd_act a (\<lambda>x. x\<lparr>state0 := pw_node_activation_state_reset (state0 x)\<rparr>) w;
          w = upd_act a (\<lambda>x. x\<lparr>a_status := NOT_TRIGGERED\<rparr>) w
      in reset_targets rs w)"

text \<open>
  \<open>process_node\<close> is the signal function of every target, and it calls
  \<open>resume_node\<close>, whose loop calls the signal function of the targets that reach
  zero: the recursion goes through a function pointer. The first argument bounds its
  depth; a cascade that needs more is \<open>Inl Out_of_fuel\<close>. The processing of the port
  mixes (\<open>rt.input_mix\<close>, \<open>rt.output_mix\<close>) is external and touches none of the
  modelled fields.
\<close>

fun process_node :: "env \<Rightarrow> nat \<Rightarrow> node_ptr \<Rightarrow> world \<Rightarrow> fault + world"
  and resume_node :: "env \<Rightarrow> nat \<Rightarrow> node_ptr \<Rightarrow> int \<Rightarrow> world \<Rightarrow> fault + world"
  and trigger_targets :: "env \<Rightarrow> nat \<Rightarrow> u64 \<Rightarrow> target_ref list \<Rightarrow> world \<Rightarrow> fault + world"
where
  "process_node e 0 this w0 = Inl Out_of_fuel"
| "process_node e (Suc k) this w0 =
     (let a = rt_activation (nodes w0 this);
          (t1, w) = clock_gettime e w0;
          w = upd_act a (\<lambda>x. x\<lparr>a_status := AWAKE, awake_time := t1\<rparr>) w
      in case node_impl (nodes w this) of
           None \<Rightarrow> Inl Null_backend
         | Some b \<Rightarrow>
             (let status = impl_process b;
                  w = emit (Backend_process this) w;
                  w = upd_act a (\<lambda>x. x\<lparr>state0 := (state0 x)\<lparr>st_status := status\<rparr>\<rparr>) w
              in if this = driver_node (nodes w this) \<and> \<not> exported (nodes w this)
                 then
                   (let (t2, w) = clock_gettime e w
                    in Inr (upd_act a (\<lambda>x. x\<lparr>a_status := FINISHED,
                                               signal_time := finish_time x,
                                               finish_time := t2,
                                               running := False\<rparr>) w))
                 else if status = SPA_STATUS_OK then Inr w
                 else resume_node e k this status w))"
| "resume_node e k this status w0 =
     (let a = rt_activation (nodes w0 this);
          (nsec, w) = clock_gettime e w0;
          w = upd_act a (\<lambda>x. x\<lparr>a_status := FINISHED, finish_time := nsec\<rparr>) w
      in trigger_targets e k nsec (rt_target_list (nodes w this)) w)"
| "trigger_targets e k nsec [] w0 = Inr w0"
| "trigger_targets e k nsec (r # rs) w0 =
     (let t = target_of w0 r;
          a = t_activation t;
          state = state0 (acts w0 a);
          w = emit (Log_pending (t_node t) a (pending state) (required state)) w0;
          (zero, state') = pw_node_activation_state_dec state 1;
          w = upd_act a (\<lambda>x. x\<lparr>state0 := state'\<rparr>) w
      in if zero
         then
           (let w = upd_act a (\<lambda>x. x\<lparr>a_status := TRIGGERED, signal_time := nsec\<rparr>) w;
                w = emit (Signal_target a (t_data t)) w
            in case process_node e k (t_data t) w of
                 Inl f \<Rightarrow> Inl f
               | Inr w' \<Rightarrow> trigger_targets e k nsec rs w')
         else trigger_targets e k nsec rs w)"

text \<open>
  The block of \<open>node_ready\<close> that runs when the node is its own driver: the check of
  \<open>running\<close> with the dump and the direct call of the node's own target, the reset
  loop, and the assignment of \<open>running\<close>.
\<close>

definition node_ready_driver :: "env \<Rightarrow> nat \<Rightarrow> node_ptr \<Rightarrow> world \<Rightarrow> fault + world" where
  "node_ready_driver e k n w0 =
     (case (if running (acts w0 (rt_activation (nodes w0 n)))
            then
              (let w = emit (Log_graph_not_finished n) w0;
                   w = dump_states n w;
                   t = rt_target (nodes w n);
                   w = emit (Signal_target (t_activation t) (t_data t)) w
               in process_node e k (t_data t) w)
            else Inr w0) of
        Inl f \<Rightarrow> Inl f
      | Inr w \<Rightarrow>
          (let w = reset_targets (rt_target_list (nodes w n)) w
           in Inr (upd_act (rt_activation (nodes w n)) (\<lambda>x. x\<lparr>running := True\<rparr>) w)))"

definition node_ready :: "env \<Rightarrow> nat \<Rightarrow> node_ptr \<Rightarrow> int \<Rightarrow> world \<Rightarrow> fault + world" where
  "node_ready e k n status w0 =
     (case (if n = driver_node (nodes w0 n) then node_ready_driver e k n w0 else Inr w0) of
        Inl f \<Rightarrow> Inl f
      | Inr w \<Rightarrow>
          if driver (nodes w n) \<and> \<not> master (nodes w n) then Inr w
          else resume_node e k n status w)"

section \<open>Vocabulary of the statements\<close>

subsection \<open>The gate of \<open>start_node\<close>\<close>

text \<open>The test of \<open>start_node\<close> on the four link counters.\<close>

definition links_ready :: "pw_node \<Rightarrow> bool" where
  "links_ready x \<longleftrightarrow>
     n_ready_output_links x = n_used_output_links x \<and>
     n_ready_input_links x = n_used_input_links x"

text \<open>
  The world in which \<open>start_node\<close> runs when an active node is asked to run: the
  request has been announced and \<open>node_activate\<close> has gone over the links.
\<close>

definition running_requested :: "env \<Rightarrow> node_ptr \<Rightarrow> world \<Rightarrow> world" where
  "running_requested e n w =
     node_activate e n (emit (Emit_state_request n PW_NODE_STATE_RUNNING) w)"

subsection \<open>The start of a cycle\<close>

text \<open>What the reset loop does to one activation record.\<close>

definition reset_activation :: "pw_node_activation \<Rightarrow> pw_node_activation" where
  "reset_activation x = x\<lparr>state0 := pw_node_activation_state_reset (state0 x), a_status := NOT_TRIGGERED\<rparr>"

text \<open>
  Every entry of the node's target list has \<open>pending = required\<close> and status
  not-triggered, and the node's own \<open>running\<close> flag is set.
\<close>

definition cycle_started :: "node_ptr \<Rightarrow> world \<Rightarrow> bool" where
  "cycle_started n w \<longleftrightarrow>
     (\<forall>r \<in> set (rt_target_list (nodes w n)).
        pending (state0 (acts w (t_activation (target_of w r)))) =
          required (state0 (acts w (t_activation (target_of w r)))) \<and>
        a_status (acts w (t_activation (target_of w r))) = NOT_TRIGGERED) \<and>
     running (acts w (rt_activation (nodes w n)))"

text \<open>The activations of the entries of a node's target list, in list order.\<close>

definition target_acts :: "world \<Rightarrow> node_ptr \<Rightarrow> act_ptr list" where
  "target_acts w n = map (\<lambda>r. t_activation (target_of w r)) (rt_target_list (nodes w n))"

text \<open>
  The activation records after the reset loop and the assignment of \<open>running\<close>, from
  those before: the record of every entry of the list is reset, the node's own record has
  \<open>running\<close> set, every other record and every other field is as before.
\<close>

definition cycle_start_acts :: "node_ptr \<Rightarrow> world \<Rightarrow> act_ptr \<Rightarrow> pw_node_activation" where
  "cycle_start_acts n w a =
     (let x = (if a \<in> set (target_acts w n) then reset_activation (acts w a) else acts w a)
      in if a = rt_activation (nodes w n) then x\<lparr>running := True\<rparr> else x)"

subsection \<open>Reading a trace against the counters\<close>

definition pending_of :: "world \<Rightarrow> act_ptr \<Rightarrow> u32" where
  "pending_of w a = pending (state0 (acts w a))"

text \<open>
  \<open>replay\<close> reads a trace against the pending counters. Its state is the value of
  every counter and, after a decrement that reached zero, the activation whose signal is
  due. A decrement must log the current value of its counter; a decrement that reaches
  zero must be followed at once by the signal of that activation; no other signal is
  accepted. \<open>replay\<close> is \<open>None\<close> for a trace that breaks one of these rules.
\<close>

definition replay_step ::
    "(act_ptr \<Rightarrow> u32) \<times> act_ptr option \<Rightarrow> event \<Rightarrow> ((act_ptr \<Rightarrow> u32) \<times> act_ptr option) option" where
  "replay_step s ev =
     (case snd s of
        None \<Rightarrow>
          (case ev of
             Log_pending n a p r \<Rightarrow>
               if p = fst s a
               then Some ((fst s)(a := p - 1), if p - 1 = 0 then Some a else None)
               else None
           | Signal_target a d \<Rightarrow> None
           | _ \<Rightarrow> Some s)
      | Some a \<Rightarrow>
          (case ev of
             Signal_target a' d \<Rightarrow> if a' = a then Some (fst s, None) else None
           | _ \<Rightarrow> None))"

fun replay ::
    "(act_ptr \<Rightarrow> u32) \<times> act_ptr option \<Rightarrow> event list \<Rightarrow> ((act_ptr \<Rightarrow> u32) \<times> act_ptr option) option" where
  "replay s [] = Some s"
| "replay s (ev # es) = (case replay_step s ev of None \<Rightarrow> None | Some s' \<Rightarrow> replay s' es)"


fun is_signal :: "act_ptr \<Rightarrow> event \<Rightarrow> bool" where
  "is_signal a (Signal_target a' d) = (a' = a)"
| "is_signal a ev = False"


definition signals :: "act_ptr \<Rightarrow> event list \<Rightarrow> nat" where
  "signals a es = length (filter (is_signal a) es)"

text \<open>The trace grows by events that \<open>replay\<close> accepts and that account for the counters.\<close>

definition valid_run :: "world \<Rightarrow> world \<Rightarrow> bool" where
  "valid_run w w' \<longleftrightarrow>
     (\<exists>es. trace w' = trace w @ es \<and>
           replay (pending_of w, None) es = Some (pending_of w', None))"

definition process_valid :: "env \<Rightarrow> nat \<Rightarrow> bool" where
  "process_valid e k \<longleftrightarrow> (\<forall>this w w'. process_node e k this w = Inr w' \<longrightarrow> valid_run w w')"




subsection \<open>The depth of a cascade\<close>


section \<open>Example inputs\<close>

text \<open>
  A backend that accepts every call and whose \<open>process\<close> returns a status other than
  \<open>SPA_STATUS_OK\<close>; an environment in which errors are the negative results and the
  asynchronous results are those with bits 31 and 30 equal to 01.
\<close>

definition ex_backend :: spa_node where
  "ex_backend =
     \<lparr>impl_send_command = (\<lambda>c. 0), impl_set_io = (\<lambda>i. 0), impl_add_listener = 0,
      impl_sync = (\<lambda>s. s), impl_process = 1\<rparr>"

definition ex_env :: env where
  "ex_env =
     \<lparr>DEFAULT_QUANTUM = 1024,
      parse_bool = (\<lambda>s. s = ''true'' \<or> s = ''1''),
      sscanf_latency = (\<lambda>s. if s = ''0/1'' then Some (0, 1)
                             else if s = ''89479/1'' then Some (89479, 1)
                             else if s = ''256/48000'' then Some (256, 48000)
                             else None),
      SPA_RESULT_IS_ERROR = (\<lambda>r. r < 0),
      SPA_RESULT_IS_ASYNC = (\<lambda>r. 2 ^ 30 \<le> r \<and> r < 2 ^ 31),
      SPA_RESULT_ASYNC_SEQ = (\<lambda>r. nat (r mod 2 ^ 30)),
      clock_at = (\<lambda>i. of_nat (1000 * i)),
      port_unset_format = (\<lambda>p. 0),
      link_activate = (\<lambda>l x. x),
      link_deactivate = (\<lambda>l x. x)\<rparr>"

text \<open>The same environment with links whose activation counts one more ready input link.\<close>

definition ex_env_ready :: env where
  "ex_env_ready =
     ex_env\<lparr>link_activate := (\<lambda>l x. x\<lparr>n_ready_input_links := n_ready_input_links x + 1\<rparr>)\<rparr>"

text \<open>A world of freshly allocated nodes, and one whose nodes carry a latency property.\<close>

definition ex_world :: world where
  "ex_world =
     \<lparr>nodes = (\<lambda>m. zero_node), acts = (\<lambda>a. zero_activation), trace = [],
      driver_list = [], ticks = 0\<rparr>"

definition ex_latency_world :: "string option \<Rightarrow> world" where
  "ex_latency_world s =
     ex_world\<lparr>nodes := (\<lambda>m. zero_node\<lparr>properties := (\<lambda>k. if k = ''node.latency'' then s else None)\<rparr>)\<rparr>"

text \<open>
  A running graph as \<open>do_node_add\<close> builds it: node 1 drives itself and node 2. The
  driver's list holds its own two entries and the target of node 2; the list of node 2
  holds its driver entry. So the driver's activation requires three decrements and that
  of node 2 one. Node 3 is idle and active with one used input link that is not ready;
  node 4 waits for the completion of sequence 7.
\<close>

definition ex_driver_node :: pw_node where
  "ex_driver_node =
     zero_node\<lparr>info_name := ''drv'', info_state := PW_NODE_STATE_RUNNING, active := True,
       driver := True, master := True, driver_node := 1, node_impl := Some ex_backend,
       source_loop := True, rt_activation := 1,
       rt_target := \<lparr>t_node = Some 1, t_activation = 1, t_data = 1\<rparr>,
       rt_driver_target := \<lparr>t_node = Some 1, t_activation = 1, t_data = 1\<rparr>,
       rt_target_list := [Driver_target 1, Target 1, Target 2]\<rparr>"

definition ex_sink_node :: pw_node where
  "ex_sink_node =
     zero_node\<lparr>info_name := ''sink'', info_state := PW_NODE_STATE_RUNNING, active := True,
       driver_node := 1, node_impl := Some ex_backend,
       source_loop := True, rt_activation := 2,
       rt_target := \<lparr>t_node = Some 2, t_activation = 2, t_data = 2\<rparr>,
       rt_driver_target := \<lparr>t_node = Some 1, t_activation = 1, t_data = 1\<rparr>,
       rt_target_list := [Driver_target 2]\<rparr>"

definition ex_idle_node :: pw_node where
  "ex_idle_node =
     zero_node\<lparr>info_name := ''idle'', info_state := PW_NODE_STATE_IDLE, active := True,
       driver_node := 3, master := True, node_impl := Some ex_backend, rt_activation := 3,
       rt_target := \<lparr>t_node = Some 3, t_activation = 3, t_data = 3\<rparr>,
       n_used_input_links := 1,
       input_ports := [\<lparr>port_id = 0, p_state = PW_PORT_STATE_PAUSED, links = [7]\<rparr>]\<rparr>"

definition ex_pending_node :: "pw_node_state \<Rightarrow> pw_node" where
  "ex_pending_node st =
     zero_node\<lparr>info_name := ''pending'', info_state := st, driver_node := 4, master := True,
       node_impl := Some ex_backend, rt_activation := 4, global := Some [11],
       rt_target := \<lparr>t_node = Some 4, t_activation = 4, t_data = 4\<rparr>,
       work := [\<lparr>wi_obj = 4, wi_seq = Some 7, wi_res = 1073741831,
                 wi_data = PW_NODE_STATE_RUNNING\<rparr>]\<rparr>"

definition ex_activation :: "u32 \<Rightarrow> u32 \<Rightarrow> bool \<Rightarrow> pw_node_activation" where
  "ex_activation req pend run =
     zero_activation\<lparr>state0 := \<lparr>st_status = 0, required = req, pending = pend\<rparr>, running := run\<rparr>"

text \<open>
  \<open>ex_graph p1 p2 run st\<close>: the pending counters of nodes 1 and 2, the driver's
  \<open>running\<close> flag, and the state of node 4.
\<close>

definition ex_graph :: "u32 \<Rightarrow> u32 \<Rightarrow> bool \<Rightarrow> pw_node_state \<Rightarrow> world" where
  "ex_graph p1 p2 run st =
     \<lparr>nodes = (\<lambda>m. if m = 1 then ex_driver_node else if m = 2 then ex_sink_node
                    else if m = 3 then ex_idle_node else if m = 4 then ex_pending_node st
                    else zero_node),
      acts = (\<lambda>a. if a = 1 then ex_activation 3 p1 run
                   else if a = 2 then ex_activation 1 p2 False else zero_activation),
      trace = [], driver_list = [1], ticks = 0\<rparr>"

text \<open>The same graph before either node was added to the data loop.\<close>

definition ex_unlinked :: world where
  "ex_unlinked =
     (ex_graph 0 0 False PW_NODE_STATE_IDLE)
       \<lparr>nodes := (\<lambda>m. if m = 1 \<or> m = 2
                      then (nodes (ex_graph 0 0 False PW_NODE_STATE_IDLE) m)
                             \<lparr>source_loop := False, rt_target_list := [],
                              rt_driver_target := zero_target\<rparr>
                      else nodes (ex_graph 0 0 False PW_NODE_STATE_IDLE) m),
        acts := (\<lambda>a. zero_activation)\<rparr>"

section \<open>Facts about the store\<close>

lemma upd_node_simps:
  "nodes (upd_node n f w) = (nodes w)(n := f (nodes w n))"
  "acts (upd_node n f w) = acts w"
  "trace (upd_node n f w) = trace w"
  "driver_list (upd_node n f w) = driver_list w"
  "ticks (upd_node n f w) = ticks w"
  by (simp_all add: upd_node_def)

lemma upd_act_simps:
  "nodes (upd_act a f w) = nodes w"
  "acts (upd_act a f w) = (acts w)(a := f (acts w a))"
  "trace (upd_act a f w) = trace w"
  "driver_list (upd_act a f w) = driver_list w"
  "ticks (upd_act a f w) = ticks w"
  by (simp_all add: upd_act_def)

lemma emit_simps:
  "nodes (emit ev w) = nodes w"
  "acts (emit ev w) = acts w"
  "trace (emit ev w) = trace w @ [ev]"
  "driver_list (emit ev w) = driver_list w"
  "ticks (emit ev w) = ticks w"
  by (simp_all add: emit_def)

lemmas world_simps = upd_node_simps upd_act_simps emit_simps

lemma clock_simps:
  "trace (snd (clock_gettime e w)) = trace w"
  "nodes (snd (clock_gettime e w)) = nodes w"
  "acts (snd (clock_gettime e w)) = acts w"
  by (simp_all add: clock_gettime_def)

lemma target_of_cong: "nodes w' = nodes w \<Longrightarrow> target_of w' r = target_of w r"
  by (cases r) (simp_all add: target_of_def)

lemma reset_targets_nodes: "nodes (reset_targets rs w) = nodes w"
  by (induction rs arbitrary: w) (simp_all add: Let_def world_simps)

lemma reset_targets_trace: "trace (reset_targets rs w) = trace w"
  by (induction rs arbitrary: w) (simp_all add: Let_def world_simps)

lemma target_of_simps:
  "target_of (upd_act a f w) r = target_of w r"
  "target_of (emit ev w) r = target_of w r"
  "target_of (reset_targets rs w) r = target_of w r"
  by (rule target_of_cong, simp add: world_simps reset_targets_nodes)+

lemma dump_line_cong:
  assumes "nodes w' = nodes w" and "acts w' = acts w"
  shows "dump_line w' r = dump_line w r"
  using assms by (simp add: dump_line_def Let_def target_of_cong [OF assms(1)] split: option.splits)

lemma dump_states_simps:
  "nodes (dump_states n w) = nodes w"
  "acts (dump_states n w) = acts w"
  "trace (dump_states n w) = trace w @ map (dump_line w) (rt_target_list (nodes w n))"
  by (simp_all add: dump_states_def)

lemma inc_required_nodes: "nodes (inc_required a w) = nodes w"
  by (simp add: inc_required_def world_simps)

lemma dec_required_nodes: "nodes (dec_required a w) = nodes w"
  by (simp add: dec_required_def world_simps)

lemma inc_required_simps:
  "nodes (inc_required a w) = nodes w" "trace (inc_required a w) = trace w"
  by (simp_all add: inc_required_def world_simps)

text \<open>The definitions the examples are evaluated with.\<close>

lemmas ex_defs = ex_graph_def ex_activation_def ex_sink_node_def ex_driver_node_def ex_idle_node_def
  ex_pending_node_def ex_world_def ex_latency_world_def
  ex_env_def ex_env_ready_def ex_backend_def zero_node_def zero_activation_def zero_target_def

text \<open>The example graph is what \<open>do_node_add\<close> builds for node 1 and then node 2.\<close>

lemma ex_graph_built:
  "do_node_add 2 (do_node_add 1 ex_unlinked) = ex_graph 0 0 False PW_NODE_STATE_IDLE"
  by (simp add: ex_unlinked_def ex_defs do_node_add_def add_node_def inc_required_def
      upd_node_def upd_act_def Let_def fun_eq_iff)

lemmas rt_defs = node_ready_def node_ready_driver_def dump_states_def dump_line_def target_of_def
  clock_gettime_def pw_node_activation_state_dec_def pw_node_activation_state_reset_def
  upd_node_def upd_act_def emit_def SPA_STATUS_OK_def

lemmas main_defs = pw_node_set_state_def set_state_switch_def suspend_node_def pause_node_def
  start_node_def node_activate_def node_deactivate_def node_links_def spa_node_send_command_def
  spa_node_sync_def pw_work_queue_add_def node_update_state_def emit_info_changed_def
  do_node_add_def add_node_def inc_required_def links_ready_def running_requested_def
  upd_node_def upd_act_def emit_def

section \<open>The reset at the start of a cycle\<close>

text \<open>
  The reset loop of \<open>node_ready\<close> changes the activation records of the entries of the
  target list and nothing else; with the assignment of \<open>running\<close> it leaves the world
  \<open>w\<lparr>acts := cycle_start_acts n w\<rparr>\<close>.
\<close>

lemma reset_activation_idem: "reset_activation (reset_activation x) = reset_activation x"
  by (simp add: reset_activation_def pw_node_activation_state_reset_def)

lemma reset_targets_acts:
  "acts (reset_targets rs w) a =
     (if a \<in> (\<lambda>r. t_activation (target_of w r)) ` set rs then reset_activation (acts w a)
      else acts w a)"
proof (induction rs arbitrary: w)
  case Nil
  show ?case by simp
next
  case (Cons r rs)
  let ?a = "t_activation (target_of w r)"
  let ?w1 = "upd_act ?a (\<lambda>x. x\<lparr>a_status := NOT_TRIGGERED\<rparr>)
               (upd_act ?a (\<lambda>x. x\<lparr>state0 := pw_node_activation_state_reset (state0 x)\<rparr>) w)"
  have n1: "nodes ?w1 = nodes w" by (simp add: world_simps)
  have a1: "acts ?w1 = (acts w)(?a := reset_activation (acts w ?a))"
    by (simp add: world_simps reset_activation_def fun_eq_iff)
  have "reset_targets (r # rs) w = reset_targets rs ?w1" by (simp add: Let_def)
  then show ?case
    using Cons.IH [of ?w1]
    by (auto simp: a1 target_of_cong [OF n1] reset_activation_idem)
qed

lemma reset_activation_simps:
  "pending (state0 (reset_activation x)) = required (state0 (reset_activation x))"
  "a_status (reset_activation x) = NOT_TRIGGERED"
  "running (reset_activation x) = running x"
  by (simp_all add: reset_activation_def pw_node_activation_state_reset_def)

lemma reset_targets_only_acts:
  "reset_targets rs w = w\<lparr>acts := acts (reset_targets rs w)\<rparr>"
proof (induction rs arbitrary: w)
  case Nil
  show ?case by simp
next
  case (Cons r rs)
  let ?a = "t_activation (target_of w r)"
  let ?w1 = "upd_act ?a (\<lambda>x. x\<lparr>a_status := NOT_TRIGGERED\<rparr>)
               (upd_act ?a (\<lambda>x. x\<lparr>state0 := pw_node_activation_state_reset (state0 x)\<rparr>) w)"
  have 1: "reset_targets (r # rs) w = reset_targets rs ?w1" by (simp add: Let_def)
  have 2: "?w1 = w\<lparr>acts := acts ?w1\<rparr>" by (simp add: upd_act_def)
  from Cons.IH [of ?w1] have "reset_targets rs ?w1 = ?w1\<lparr>acts := acts (reset_targets rs ?w1)\<rparr>" .
  also have "\<dots> = w\<lparr>acts := acts (reset_targets rs ?w1)\<rparr>"
    by (subst 2) simp
  finally show ?case unfolding 1 .
qed

lemma acts_update_twice:
  fixes R w :: world
  assumes "R = w\<lparr>acts := A\<rparr>"
  shows "R\<lparr>acts := X\<rparr> = w\<lparr>acts := X\<rparr>"
  by (subst assms) simp

lemma cycle_start_world:
  "upd_act (rt_activation (nodes (reset_targets (rt_target_list (nodes w n)) w) n))
     (\<lambda>x. x\<lparr>running := True\<rparr>) (reset_targets (rt_target_list (nodes w n)) w) =
   w\<lparr>acts := cycle_start_acts n w\<rparr>"
proof -
  let ?R = "reset_targets (rt_target_list (nodes w n)) w"
  have R: "?R = w\<lparr>acts := acts ?R\<rparr>" by (rule reset_targets_only_acts)
  have A: "acts ?R a =
             (if a \<in> set (target_acts w n) then reset_activation (acts w a) else acts w a)" for a
    by (simp add: reset_targets_acts target_acts_def)
  have "upd_act (rt_activation (nodes ?R n)) (\<lambda>x. x\<lparr>running := True\<rparr>) ?R =
        ?R\<lparr>acts := (acts ?R)(rt_activation (nodes w n) := (acts ?R (rt_activation (nodes w n)))\<lparr>running := True\<rparr>)\<rparr>"
    by (simp add: upd_act_def reset_targets_nodes)
  also have "\<dots> =
        w\<lparr>acts := (acts ?R)(rt_activation (nodes w n) := (acts ?R (rt_activation (nodes w n)))\<lparr>running := True\<rparr>)\<rparr>"
    by (rule acts_update_twice [OF R])
  also have "(acts ?R)(rt_activation (nodes w n) := (acts ?R (rt_activation (nodes w n)))\<lparr>running := True\<rparr>)
               = cycle_start_acts n w"
    by (simp add: fun_eq_iff cycle_start_acts_def A Let_def)
  finally show ?thesis .
qed

lemma node_ready_driver_fresh:
  assumes "\<not> running (acts w (rt_activation (nodes w n)))"
  shows "node_ready_driver e k n w = Inr (w\<lparr>acts := cycle_start_acts n w\<rparr>)"
  using assms by (simp add: node_ready_driver_def Let_def cycle_start_world)

lemma cycle_start_acts_target:
  assumes "a \<in> set (target_acts w n)"
  shows "pending (state0 (cycle_start_acts n w a)) = required (state0 (acts w a))"
    and "required (state0 (cycle_start_acts n w a)) = required (state0 (acts w a))"
    and "a_status (cycle_start_acts n w a) = NOT_TRIGGERED"
  using assms
  by (simp_all add: cycle_start_acts_def Let_def reset_activation_def pw_node_activation_state_reset_def)

lemma cycle_start_acts_running:
  "running (cycle_start_acts n w (rt_activation (nodes w n)))"
  by (simp add: cycle_start_acts_def Let_def)


lemma cycle_started_start: "cycle_started n (w\<lparr>acts := cycle_start_acts n w\<rparr>)"
proof -
  let ?w1 = "w\<lparr>acts := cycle_start_acts n w\<rparr>"
  have n1: "nodes ?w1 = nodes w" by simp
  have "t_activation (target_of w r) \<in> set (target_acts w n)"
    if "r \<in> set (rt_target_list (nodes w n))" for r
    using that by (simp add: target_acts_def)
  then show ?thesis
    unfolding cycle_started_def
    by (simp add: target_of_cong [OF n1] cycle_start_acts_target cycle_start_acts_running)
qed

lemma node_ready_eq:
  assumes "n = driver_node (nodes w n)"
  shows "node_ready e k n status w =
     (case node_ready_driver e k n w of
        Inl f \<Rightarrow> Inl f
      | Inr w1 \<Rightarrow>
          if driver (nodes w1 n) \<and> \<not> master (nodes w1 n) then Inr w1
          else resume_node e k n status w1)"
  using assms by (simp add: node_ready_def)

section \<open>The decrement-and-signal walk (C1)\<close>

subsection \<open>Traces that \<open>replay\<close> accepts\<close>

lemma replay_append:
  "replay s (es1 @ es2) = (case replay s es1 of None \<Rightarrow> None | Some s' \<Rightarrow> replay s' es2)"
  by (induction es1 arbitrary: s) (auto split: option.splits)

lemma valid_run_same:
  assumes "trace w' = trace w" and "pending_of w' = pending_of w"
  shows "valid_run w w'"
  using assms by (simp add: valid_run_def)

lemma valid_run_trans:
  assumes "valid_run w w1" and "valid_run w1 w2"
  shows "valid_run w w2"
proof -
  from assms(1) obtain es1 where 1: "trace w1 = trace w @ es1"
    "replay (pending_of w, None) es1 = Some (pending_of w1, None)"
    by (auto simp: valid_run_def)
  from assms(2) obtain es2 where 2: "trace w2 = trace w1 @ es2"
    "replay (pending_of w1, None) es2 = Some (pending_of w2, None)"
    by (auto simp: valid_run_def)
  have "trace w2 = trace w @ (es1 @ es2)" using 1 2 by simp
  moreover have "replay (pending_of w, None) (es1 @ es2) = Some (pending_of w2, None)"
    using 1 2 by (simp add: replay_append)
  ultimately show ?thesis unfolding valid_run_def by blast
qed

lemma valid_run_left:
  assumes "trace w1 = trace w" and "pending_of w1 = pending_of w" and "valid_run w1 w2"
  shows "valid_run w w2"
  using valid_run_trans [OF valid_run_same [OF assms(1,2)] assms(3)] .

lemma pending_of_upd_act:
  assumes "\<And>x. pending (state0 (f x)) = pending (state0 x)"
  shows "pending_of (upd_act a f w) = pending_of w"
  using assms by (auto simp: pending_of_def upd_act_def fun_eq_iff)

lemma pending_of_emit: "pending_of (emit ev w) = pending_of w"
  by (simp add: pending_of_def emit_def fun_eq_iff)

lemma pending_of_clock: "pending_of (snd (clock_gettime e w)) = pending_of w"
  by (simp add: pending_of_def clock_gettime_def fun_eq_iff)

lemma step_nonzero:
  assumes "trace w1 = trace w @ [Log_pending nd a (pending_of w a) r]"
    and "pending_of w1 = (pending_of w)(a := pending_of w a - 1)"
    and "pending_of w a - 1 \<noteq> 0"
  shows "valid_run w w1"
  unfolding valid_run_def
  using assms by (intro exI [of _ "[Log_pending nd a (pending_of w a) r]"]) (simp add: replay_step_def)

lemma step_zero:
  assumes "trace w1 = trace w @ [Log_pending nd a (pending_of w a) r, Signal_target a d]"
    and "pending_of w1 = (pending_of w)(a := pending_of w a - 1)"
    and "pending_of w a - 1 = 0"
  shows "valid_run w w1"
  unfolding valid_run_def
  using assms
  by (intro exI [of _ "[Log_pending nd a (pending_of w a) r, Signal_target a d]"])
     (simp add: replay_step_def)

lemma pending_of_dec:
  "pending_of (upd_act a (\<lambda>x. x\<lparr>state0 := (state0 (acts w a))\<lparr>pending := pending (state0 (acts w a)) - 1\<rparr>\<rparr>) (emit ev w))
     = (pending_of w)(a := pending_of w a - 1)"
  by (auto simp: pending_of_def world_simps fun_eq_iff)

subsection \<open>Every cascade writes such a trace\<close>

text \<open>
  The walk over a target list, given that the signal function does; then
  \<open>resume_node\<close>; then \<open>process_node\<close> by induction on the bound of the recursion.
\<close>

lemma trigger_valid:
  assumes P: "process_valid e k"
  shows "trigger_targets e k nsec rs w = Inr w' \<Longrightarrow> valid_run w w'"
proof (induction rs arbitrary: w)
  case Nil
  then show ?case by (simp add: valid_run_same)
next
  case (Cons r rs)
  let ?t = "target_of w r"
  let ?a = "t_activation ?t"
  let ?w1 = "upd_act ?a (\<lambda>x. x\<lparr>state0 := (state0 (acts w ?a))\<lparr>pending := pending (state0 (acts w ?a)) - 1\<rparr>\<rparr>)
               (emit (Log_pending (t_node ?t) ?a (pending (state0 (acts w ?a))) (required (state0 (acts w ?a)))) w)"
  let ?w2 = "emit (Signal_target ?a (t_data ?t))
               (upd_act ?a (\<lambda>x. x\<lparr>a_status := TRIGGERED, signal_time := nsec\<rparr>) ?w1)"
  have p1: "pending_of ?w1 = (pending_of w)(?a := pending_of w ?a - 1)"
    by (rule pending_of_dec)
  have t1: "trace ?w1 = trace w @ [Log_pending (t_node ?t) ?a (pending_of w ?a) (required (state0 (acts w ?a)))]"
    by (simp add: world_simps pending_of_def)
  show ?case
  proof (cases "pending_of w ?a - 1 = 0")
    case False
    then have run: "trigger_targets e k nsec rs ?w1 = Inr w'"
      using Cons.prems
      by (simp add: Let_def pw_node_activation_state_dec_def pending_of_def)
    have "valid_run w ?w1" using t1 p1 False by (rule step_nonzero)
    moreover have "valid_run ?w1 w'" using run by (rule Cons.IH)
    ultimately show ?thesis by (rule valid_run_trans)
  next
    case True
    then obtain w2' where pn: "process_node e k (t_data ?t) ?w2 = Inr w2'"
      and run: "trigger_targets e k nsec rs w2' = Inr w'"
      using Cons.prems
      by (auto simp: Let_def pw_node_activation_state_dec_def pending_of_def split: sum.splits)
    have p2: "pending_of ?w2 = (pending_of w)(?a := pending_of w ?a - 1)"
      using p1 by (simp add: pending_of_emit pending_of_upd_act)
    have t2: "trace ?w2 = trace w @ [Log_pending (t_node ?t) ?a (pending_of w ?a) (required (state0 (acts w ?a))),
                Signal_target ?a (t_data ?t)]"
      using t1 by (simp add: world_simps)
    have "valid_run w ?w2" using t2 p2 True by (rule step_zero)
    moreover have "valid_run ?w2 w2'" using P pn unfolding process_valid_def by blast
    moreover have "valid_run w2' w'" using run by (rule Cons.IH)
    ultimately show ?thesis by (blast intro: valid_run_trans)
  qed
qed

lemma resume_valid:
  assumes P: "process_valid e k" and "resume_node e k this status w = Inr w'"
  shows "valid_run w w'"
proof -
  let ?a = "rt_activation (nodes w this)"
  let ?w1 = "upd_act ?a (\<lambda>x. x\<lparr>a_status := FINISHED, finish_time := fst (clock_gettime e w)\<rparr>)
               (snd (clock_gettime e w))"
  have run: "trigger_targets e k (fst (clock_gettime e w)) (rt_target_list (nodes ?w1 this)) ?w1 = Inr w'"
    using assms(2) by (simp add: Let_def split: prod.splits)
  have "valid_run ?w1 w'" using P run by (rule trigger_valid)
  moreover have "trace ?w1 = trace w" by (simp add: world_simps clock_simps)
  moreover have "pending_of ?w1 = pending_of w"
    by (simp add: pending_of_upd_act pending_of_clock)
  ultimately show ?thesis by (blast intro: valid_run_left)
qed

lemma process_valid_all: "process_valid e k"
proof (induction k)
  case 0
  show ?case by (simp add: process_valid_def)
next
  case (Suc k)
  show ?case
    unfolding process_valid_def
  proof (intro allI impI)
    fix this w w'
    assume run: "process_node e (Suc k) this w = Inr w'"
    let ?a = "rt_activation (nodes w this)"
    let ?w1 = "upd_act ?a (\<lambda>x. x\<lparr>a_status := AWAKE, awake_time := fst (clock_gettime e w)\<rparr>)
                 (snd (clock_gettime e w))"
    from run obtain b where b: "node_impl (nodes ?w1 this) = Some b"
      by (auto simp: Let_def split: prod.splits option.splits)
    let ?w2 = "upd_act ?a (\<lambda>x. x\<lparr>state0 := (state0 x)\<lparr>st_status := impl_process b\<rparr>\<rparr>)
                 (emit (Backend_process this) ?w1)"
    have v2: "valid_run w ?w2"
      unfolding valid_run_def
      by (intro exI [of _ "[Backend_process this]"])
         (simp add: world_simps clock_simps replay_step_def pending_of_upd_act pending_of_emit
           pending_of_clock)
    have n2: "nodes ?w2 = nodes w" "nodes (snd (clock_gettime e w)) = nodes w"
      by (simp_all add: world_simps clock_simps)
    define own where "own \<longleftrightarrow> this = driver_node (nodes w this) \<and> \<not> exported (nodes w this)"
    consider (drv) "own" | (ok) "\<not> own" "impl_process b = SPA_STATUS_OK"
      | (resume) "\<not> own" "impl_process b \<noteq> SPA_STATUS_OK"
      by blast
    then show "valid_run w w'"
    proof cases
      case drv
      let ?w3 = "upd_act ?a (\<lambda>x. x\<lparr>a_status := FINISHED, signal_time := finish_time x,
                    finish_time := fst (clock_gettime e ?w2), running := False\<rparr>)
                   (snd (clock_gettime e ?w2))"
      have "w' = ?w3"
        using run b drv n2 unfolding own_def
        by (auto simp: Let_def world_simps split: prod.splits if_splits)
      moreover have "valid_run ?w2 ?w3"
        by (rule valid_run_same) (simp_all add: world_simps clock_simps pending_of_upd_act pending_of_clock)
      ultimately show ?thesis using v2 by (blast intro: valid_run_trans)
    next
      case ok
      then have "w' = ?w2"
        using run b n2 unfolding own_def
        by (auto simp: Let_def world_simps split: prod.splits if_splits)
      then show ?thesis using v2 by simp
    next
      case resume
      then have "resume_node e k this (impl_process b) ?w2 = Inr w'"
        using run b n2 unfolding own_def
        by (auto simp: Let_def world_simps split: prod.splits if_splits)
      then have "valid_run ?w2 w'" using Suc by (intro resume_valid)
      then show ?thesis using v2 by (blast intro: valid_run_trans)
    qed
  qed
qed


subsection \<open>The direct call of a stalled wake\<close>

lemma process_node_trace_grows:
  assumes "process_node e k this w = Inr w'"
  shows "\<exists>es. trace w' = trace w @ es"
  using process_valid_all [of e k] assms unfolding process_valid_def valid_run_def by blast

text \<open>
  When \<open>running\<close> is still set, the driver block of \<open>node_ready\<close> first brings the
  world to \<open>wk\<close>: the warning, the dump and the call of the signal function of the
  node's own target have been written to the trace, nothing else has changed. The rest
  of the block is the signal function run from \<open>wk\<close>, then the reset.
\<close>

lemma node_ready_driver_stalled:
  assumes "running (acts w (rt_activation (nodes w n)))"
  shows "\<exists>wk. nodes wk = nodes w \<and> acts wk = acts w \<and>
           trace wk = trace w @ [Log_graph_not_finished n] @
             map (\<lambda>r. Log_state (t_node (target_of w r))
                    (case t_node (target_of w r) of Some m \<Rightarrow> info_name (nodes w m) | None \<Rightarrow> [])
                    (required (state0 (acts w (t_activation (target_of w r)))))
                    (signal_time (acts w (t_activation (target_of w r))))
                    (awake_time (acts w (t_activation (target_of w r))))
                    (finish_time (acts w (t_activation (target_of w r))))
                    (awake_time (acts w (t_activation (target_of w r))) -
                       signal_time (acts w (t_activation (target_of w r))))
                    (finish_time (acts w (t_activation (target_of w r))) -
                       awake_time (acts w (t_activation (target_of w r))))
                    (a_status (acts w (t_activation (target_of w r)))))
                 (rt_target_list (nodes w n)) @
             [Signal_target (t_activation (rt_target (nodes w n))) (t_data (rt_target (nodes w n)))] \<and>
           (case process_node e k (t_data (rt_target (nodes w n))) wk of
              Inl f \<Rightarrow> node_ready_driver e k n w = Inl f
            | Inr w2 \<Rightarrow>
                (\<exists>es. trace w2 = trace wk @ es) \<and>
                node_ready_driver e k n w =
                  Inr (upd_act (rt_activation (nodes w2 n)) (\<lambda>x. x\<lparr>running := True\<rparr>)
                         (reset_targets (rt_target_list (nodes w2 n)) w2)))"
proof -
  let ?wk = "emit (Signal_target (t_activation (rt_target (nodes w n))) (t_data (rt_target (nodes w n))))
               (dump_states n (emit (Log_graph_not_finished n) w))"
  have 1: "nodes ?wk = nodes w" "acts ?wk = acts w"
    by (simp_all add: world_simps dump_states_simps)
  have 2: "trace ?wk = trace w @ [Log_graph_not_finished n] @
             map (dump_line w) (rt_target_list (nodes w n)) @
             [Signal_target (t_activation (rt_target (nodes w n))) (t_data (rt_target (nodes w n)))]"
    by (simp add: world_simps dump_states_simps dump_line_cong [of "emit (Log_graph_not_finished n) w" w])
  have 3: "node_ready_driver e k n w =
      (case process_node e k (t_data (rt_target (nodes w n))) ?wk of
         Inl f \<Rightarrow> Inl f
       | Inr w2 \<Rightarrow> Inr (upd_act (rt_activation (nodes (reset_targets (rt_target_list (nodes w2 n)) w2) n))
                          (\<lambda>x. x\<lparr>running := True\<rparr>)
                          (reset_targets (rt_target_list (nodes w2 n)) w2)))"
    using assms
    by (simp add: node_ready_driver_def Let_def world_simps dump_states_simps split: sum.splits)
  show ?thesis
  proof (intro exI [of _ ?wk] conjI)
    show "nodes ?wk = nodes w" "acts ?wk = acts w" by (rule 1)+
    show "trace ?wk = trace w @ [Log_graph_not_finished n] @
             map (\<lambda>r. Log_state (t_node (target_of w r))
                    (case t_node (target_of w r) of Some m \<Rightarrow> info_name (nodes w m) | None \<Rightarrow> [])
                    (required (state0 (acts w (t_activation (target_of w r)))))
                    (signal_time (acts w (t_activation (target_of w r))))
                    (awake_time (acts w (t_activation (target_of w r))))
                    (finish_time (acts w (t_activation (target_of w r))))
                    (awake_time (acts w (t_activation (target_of w r))) -
                       signal_time (acts w (t_activation (target_of w r))))
                    (finish_time (acts w (t_activation (target_of w r))) -
                       awake_time (acts w (t_activation (target_of w r))))
                    (a_status (acts w (t_activation (target_of w r)))))
                 (rt_target_list (nodes w n)) @
             [Signal_target (t_activation (rt_target (nodes w n))) (t_data (rt_target (nodes w n)))]"
      unfolding 2 by (simp add: dump_line_def Let_def)
    show "case process_node e k (t_data (rt_target (nodes w n))) ?wk of
              Inl f \<Rightarrow> node_ready_driver e k n w = Inl f
            | Inr w2 \<Rightarrow>
                (\<exists>es. trace w2 = trace ?wk @ es) \<and>
                node_ready_driver e k n w =
                  Inr (upd_act (rt_activation (nodes w2 n)) (\<lambda>x. x\<lparr>running := True\<rparr>)
                         (reset_targets (rt_target_list (nodes w2 n)) w2))"
    proof (cases "process_node e k (t_data (rt_target (nodes w n))) ?wk")
      case (Inl f)
      then show ?thesis using 3 by simp
    next
      case (Inr w2)
      then show ?thesis
        using 3 process_node_trace_grows [OF Inr] by (simp add: reset_targets_nodes)
    qed
  qed
qed

text \<open>The same with the dump written as \<open>dump_line\<close> and the reset as the world it leaves.\<close>

lemma dump_line_map:
  "map (dump_line v) rs =
     map (\<lambda>r. Log_state (t_node (target_of v r))
            (case t_node (target_of v r) of Some m \<Rightarrow> info_name (nodes v m) | None \<Rightarrow> [])
            (required (state0 (acts v (t_activation (target_of v r)))))
            (signal_time (acts v (t_activation (target_of v r))))
            (awake_time (acts v (t_activation (target_of v r))))
            (finish_time (acts v (t_activation (target_of v r))))
            (awake_time (acts v (t_activation (target_of v r))) -
               signal_time (acts v (t_activation (target_of v r))))
            (finish_time (acts v (t_activation (target_of v r))) -
               awake_time (acts v (t_activation (target_of v r))))
            (a_status (acts v (t_activation (target_of v r))))) rs"
  by (simp add: dump_line_def Let_def)

lemma node_ready_driver_stalled_start:
  assumes "running (acts w (rt_activation (nodes w n)))"
  shows "\<exists>wk. nodes wk = nodes w \<and> acts wk = acts w \<and>
           trace wk = trace w @ [Log_graph_not_finished n] @
             map (dump_line w) (rt_target_list (nodes w n)) @
             [Signal_target (t_activation (rt_target (nodes w n))) (t_data (rt_target (nodes w n)))] \<and>
           node_ready_driver e k n w =
             (case process_node e k (t_data (rt_target (nodes w n))) wk of
                Inl f \<Rightarrow> Inl f
              | Inr w2 \<Rightarrow> Inr (w2\<lparr>acts := cycle_start_acts n w2\<rparr>))"
proof -
  from node_ready_driver_stalled [OF assms, of e k, folded dump_line_map]
  obtain wk where wk: "nodes wk = nodes w" "acts wk = acts w"
    "trace wk = trace w @ [Log_graph_not_finished n] @
             map (dump_line w) (rt_target_list (nodes w n)) @
             [Signal_target (t_activation (rt_target (nodes w n))) (t_data (rt_target (nodes w n)))]"
    "case process_node e k (t_data (rt_target (nodes w n))) wk of
              Inl f \<Rightarrow> node_ready_driver e k n w = Inl f
            | Inr w2 \<Rightarrow>
                (\<exists>es. trace w2 = trace wk @ es) \<and>
                node_ready_driver e k n w =
                  Inr (upd_act (rt_activation (nodes w2 n)) (\<lambda>x. x\<lparr>running := True\<rparr>)
                         (reset_targets (rt_target_list (nodes w2 n)) w2))"
    by blast
  have "node_ready_driver e k n w =
             (case process_node e k (t_data (rt_target (nodes w n))) wk of
                Inl f \<Rightarrow> Inl f
              | Inr w2 \<Rightarrow> Inr (w2\<lparr>acts := cycle_start_acts n w2\<rparr>))"
  proof (cases "process_node e k (t_data (rt_target (nodes w n))) wk")
    case (Inl f)
    with wk(4) show ?thesis by simp
  next
    case (Inr w2)
    with wk(4) have "node_ready_driver e k n w =
                  Inr (upd_act (rt_activation (nodes w2 n)) (\<lambda>x. x\<lparr>running := True\<rparr>)
                         (reset_targets (rt_target_list (nodes w2 n)) w2))" by simp
    moreover have "rt_activation (nodes w2 n) =
                     rt_activation (nodes (reset_targets (rt_target_list (nodes w2 n)) w2) n)"
      by (simp add: reset_targets_nodes)
    ultimately show ?thesis using Inr cycle_start_world [of w2 n] by simp
  qed
  with wk(1-3) show ?thesis by blast
qed

subsection \<open>The walk visits every entry of the list\<close>

text \<open>
  The cascade changes no node, so the entries of a list lead to the same activations
  throughout; each entry of the list a walk goes over adds one decrement of its counter.
\<close>

lemma trigger_nodes:
  assumes P: "\<And>this w w'. process_node e k this w = Inr w' \<Longrightarrow> nodes w' = nodes w"
  shows "trigger_targets e k nsec rs w = Inr w' \<Longrightarrow> nodes w' = nodes w"
proof (induction rs arbitrary: w)
  case Nil
  then show ?case by simp
next
  case (Cons r rs)
  then show ?case
    by (auto simp: Let_def world_simps pw_node_activation_state_dec_def
             split: sum.splits if_splits prod.splits dest!: P)
qed

lemma process_node_nodes:
  "process_node e k this w = Inr w' \<Longrightarrow> nodes w' = nodes w"
proof (induction k arbitrary: this w w')
  case 0
  then show ?case by simp
next
  case (Suc k)
  have T: "trigger_targets e k nsec rs v = Inr v' \<Longrightarrow> nodes v' = nodes v" for nsec rs v v'
    using Suc.IH by (rule trigger_nodes)
  from Suc.prems show ?case
    by (auto simp: Let_def world_simps clock_simps clock_gettime_def
             split: sum.splits if_splits prod.splits option.splits dest!: T)
qed

lemma trigger_targets_nodes:
  "trigger_targets e k nsec rs w = Inr w' \<Longrightarrow> nodes w' = nodes w"
  using process_node_nodes by (rule trigger_nodes)



subsection \<open>A cascade of bounded depth returns\<close>





subsection \<open>Counting the signals of an accepted trace\<close>



subsection \<open>A signalled node runs\<close>





subsection \<open>The walk of a node and the cycle of a driver\<close>








text \<open>
  A cycle whose follower has not finished: with a backend of node 2 that returns
  \<open>SPA_STATUS_OK\<close>, to continue asynchronously, the walk of the driver signals node 2
  only. The driver's counter is left at 1, its own target has had no call, and
  \<open>running\<close> stays set: the counters with which the next wake finds the graph.
\<close>

lemma ex_unfinished_cycle:
  "map_sum id (\<lambda>w'. (trace w', pending_of w' 1, pending_of w' 2,
                      running (acts w' 1), signals 1 (trace w')))
     (node_ready ex_env 3 1 1
        ((ex_graph 0 0 False PW_NODE_STATE_IDLE)
           \<lparr>nodes := (nodes (ex_graph 0 0 False PW_NODE_STATE_IDLE))
              (2 := ex_sink_node\<lparr>node_impl := Some (ex_backend\<lparr>impl_process := SPA_STATUS_OK\<rparr>)\<rparr>)\<rparr>)) =
   Inr ([Log_pending (Some 1) 1 3 3, Log_pending (Some 1) 1 2 3, Log_pending (Some 2) 2 1 1,
         Signal_target 2 2, Backend_process 2], 1, 0, True, 0)"
  by (simp add: ex_defs rt_defs Let_def numeral_3_eq_3 signals_def pending_of_def)


section \<open>The start of a cycle (C2)\<close>

text \<open>
  Claim C2, as amended. A node that is its own driver reports ready; \<open>node_ready\<close>
  runs the driver block and then, unless the node is a driver without \<open>master\<close>, the
  walk of \<open>resume_node\<close> from the world the block leaves.

  \<^item> When \<open>running\<close> is clear at the wake, the block cannot fail and signals
    nothing: it leaves the world of the wake with the activation records
    \<open>cycle_start_acts\<close>, in which every entry of the driver's target list has
    \<open>pending\<close> equal to its \<open>required\<close>, \<open>required\<close> as it was and status
    not-triggered, the driver's \<open>running\<close> is true, and nothing else has changed.

  \<^item> When \<open>running\<close> is still set, the block first writes the warning and the
    dump and calls the signal function of the driver's own target; the same reset and
    assignment are then applied to the world that call returns. In such a wake a target is
    signalled before the reset.

  \<^item> In both cases the world the block leaves satisfies \<open>cycle_started\<close>.
\<close>

theorem node_ready_resets_targets:
  assumes "n = driver_node (nodes w n)"
  shows "node_ready e k n status w =
           (case node_ready_driver e k n w of
              Inl f \<Rightarrow> Inl f
            | Inr w1 \<Rightarrow>
                if driver (nodes w1 n) \<and> \<not> master (nodes w1 n) then Inr w1
                else resume_node e k n status w1) \<and>
         (\<not> running (acts w (rt_activation (nodes w n))) \<longrightarrow>
            node_ready_driver e k n w = Inr (w\<lparr>acts := cycle_start_acts n w\<rparr>)) \<and>
         (running (acts w (rt_activation (nodes w n))) \<longrightarrow>
            (\<exists>wk. nodes wk = nodes w \<and> acts wk = acts w \<and>
               trace wk = trace w @ [Log_graph_not_finished n] @
                 map (dump_line w) (rt_target_list (nodes w n)) @
                 [Signal_target (t_activation (rt_target (nodes w n))) (t_data (rt_target (nodes w n)))] \<and>
               node_ready_driver e k n w =
                 (case process_node e k (t_data (rt_target (nodes w n))) wk of
                    Inl f \<Rightarrow> Inl f
                  | Inr w2 \<Rightarrow> Inr (w2\<lparr>acts := cycle_start_acts n w2\<rparr>)))) \<and>
         (\<forall>w1. node_ready_driver e k n w = Inr w1 \<longrightarrow> cycle_started n w1) \<and>
         (\<forall>w0. \<forall>a \<in> set (target_acts w0 n).
            pending (state0 (cycle_start_acts n w0 a)) = required (state0 (acts w0 a)) \<and>
            required (state0 (cycle_start_acts n w0 a)) = required (state0 (acts w0 a)) \<and>
            a_status (cycle_start_acts n w0 a) = NOT_TRIGGERED)"
proof -
  note eq = node_ready_eq [OF assms, of e k status]
  have fresh: "\<not> running (acts w (rt_activation (nodes w n))) \<longrightarrow>
            node_ready_driver e k n w = Inr (w\<lparr>acts := cycle_start_acts n w\<rparr>)"
    by (simp add: node_ready_driver_fresh)
  have stalled: "running (acts w (rt_activation (nodes w n))) \<longrightarrow>
            (\<exists>wk. nodes wk = nodes w \<and> acts wk = acts w \<and>
               trace wk = trace w @ [Log_graph_not_finished n] @
                 map (dump_line w) (rt_target_list (nodes w n)) @
                 [Signal_target (t_activation (rt_target (nodes w n))) (t_data (rt_target (nodes w n)))] \<and>
               node_ready_driver e k n w =
                 (case process_node e k (t_data (rt_target (nodes w n))) wk of
                    Inl f \<Rightarrow> Inl f
                  | Inr w2 \<Rightarrow> Inr (w2\<lparr>acts := cycle_start_acts n w2\<rparr>)))"
    using node_ready_driver_stalled_start [of w n e k] by blast
  have started: "\<forall>w1. node_ready_driver e k n w = Inr w1 \<longrightarrow> cycle_started n w1"
  proof (intro allI impI)
    fix w1 assume r: "node_ready_driver e k n w = Inr w1"
    have "\<exists>w0. w1 = w0\<lparr>acts := cycle_start_acts n w0\<rparr>"
    proof (cases "running (acts w (rt_activation (nodes w n)))")
      case False
      with fresh r show ?thesis by auto
    next
      case True
      with stalled obtain wk where
        "node_ready_driver e k n w =
           (case process_node e k (t_data (rt_target (nodes w n))) wk of
              Inl f \<Rightarrow> Inl f
            | Inr w2 \<Rightarrow> Inr (w2\<lparr>acts := cycle_start_acts n w2\<rparr>))" by blast
      with r show ?thesis
        by (cases "process_node e k (t_data (rt_target (nodes w n))) wk") auto
    qed
    then show "cycle_started n w1" using cycle_started_start by blast
  qed
  have fields: "\<forall>w0. \<forall>a \<in> set (target_acts w0 n).
            pending (state0 (cycle_start_acts n w0 a)) = required (state0 (acts w0 a)) \<and>
            required (state0 (cycle_start_acts n w0 a)) = required (state0 (acts w0 a)) \<and>
            a_status (cycle_start_acts n w0 a) = NOT_TRIGGERED"
    by (simp add: cycle_start_acts_target)
  from eq fresh stalled started fields show ?thesis by (intro conjI)
qed

text \<open>
  Witness for C2: the driver of the example graph wakes with \<open>running\<close> clear, and
  with \<open>running\<close> still set.
\<close>

theorem node_ready_resets_targets_witness:
  "1 = driver_node (nodes (ex_graph 0 0 False PW_NODE_STATE_IDLE) 1) \<and>
   \<not> running (acts (ex_graph 0 0 False PW_NODE_STATE_IDLE)
               (rt_activation (nodes (ex_graph 0 0 False PW_NODE_STATE_IDLE) 1))) \<and>
   node_ready_driver ex_env 3 1 (ex_graph 0 0 False PW_NODE_STATE_IDLE) =
     Inr ((ex_graph 0 0 False PW_NODE_STATE_IDLE)
            \<lparr>acts := cycle_start_acts 1 (ex_graph 0 0 False PW_NODE_STATE_IDLE)\<rparr>) \<and>
   cycle_started 1 ((ex_graph 0 0 False PW_NODE_STATE_IDLE)
            \<lparr>acts := cycle_start_acts 1 (ex_graph 0 0 False PW_NODE_STATE_IDLE)\<rparr>) \<and>
   node_ready ex_env 3 1 1 (ex_graph 0 0 False PW_NODE_STATE_IDLE) =
     resume_node ex_env 3 1 1 ((ex_graph 0 0 False PW_NODE_STATE_IDLE)
            \<lparr>acts := cycle_start_acts 1 (ex_graph 0 0 False PW_NODE_STATE_IDLE)\<rparr>) \<and>
   target_acts (ex_graph 0 0 False PW_NODE_STATE_IDLE) 1 = [1, 1, 2] \<and>
   pending (state0 (cycle_start_acts 1 (ex_graph 0 0 False PW_NODE_STATE_IDLE) 1)) = 3 \<and>
   required (state0 (cycle_start_acts 1 (ex_graph 0 0 False PW_NODE_STATE_IDLE) 1)) = 3 \<and>
   a_status (cycle_start_acts 1 (ex_graph 0 0 False PW_NODE_STATE_IDLE) 1) = NOT_TRIGGERED \<and>
   pending (state0 (cycle_start_acts 1 (ex_graph 0 0 False PW_NODE_STATE_IDLE) 2)) = 1 \<and>
   1 = driver_node (nodes (ex_graph 1 0 True PW_NODE_STATE_IDLE) 1) \<and>
   running (acts (ex_graph 1 0 True PW_NODE_STATE_IDLE)
             (rt_activation (nodes (ex_graph 1 0 True PW_NODE_STATE_IDLE) 1))) \<and>
   (\<exists>wk. trace wk =
            [Log_graph_not_finished 1,
             Log_state (Some 1) ''drv'' 3 0 0 0 0 0 NOT_TRIGGERED,
             Log_state (Some 1) ''drv'' 3 0 0 0 0 0 NOT_TRIGGERED,
             Log_state (Some 2) ''sink'' 1 0 0 0 0 0 NOT_TRIGGERED,
             Signal_target 1 1] \<and>
          node_ready_driver ex_env 3 1 (ex_graph 1 0 True PW_NODE_STATE_IDLE) =
            (case process_node ex_env 3 1 wk of
               Inl f \<Rightarrow> Inl f
             | Inr w2 \<Rightarrow> Inr (w2\<lparr>acts := cycle_start_acts 1 w2\<rparr>)))"
proof -
  let ?V = "ex_graph 0 0 False PW_NODE_STATE_IDLE"
  let ?U = "ex_graph 1 0 True PW_NODE_STATE_IDLE"
  have hv: "1 = driver_node (nodes ?V 1)" "\<not> running (acts ?V (rt_activation (nodes ?V 1)))"
    by (simp_all add: ex_defs)
  have hu: "1 = driver_node (nodes ?U 1)" "running (acts ?U (rt_activation (nodes ?U 1)))"
    by (simp_all add: ex_defs)
  have ta: "target_acts ?V 1 = [1, 1, 2]" by (simp add: target_acts_def target_of_def ex_defs)
  have rq: "required (state0 (acts ?V 1)) = 3" "required (state0 (acts ?V 2)) = 1"
    by (simp_all add: ex_defs)
  have m: "\<not> (driver (nodes (?V\<lparr>acts := cycle_start_acts 1 ?V\<rparr>) 1) \<and>
               \<not> master (nodes (?V\<lparr>acts := cycle_start_acts 1 ?V\<rparr>) 1))"
    by (simp add: ex_defs)
  note V = node_ready_resets_targets [OF hv(1), of ex_env 3 1]
  note U = node_ready_resets_targets [OF hu(1), of ex_env 3 1]
  from V hv(2) have d: "node_ready_driver ex_env 3 1 ?V = Inr (?V\<lparr>acts := cycle_start_acts 1 ?V\<rparr>)"
    by blast
  from V d have cs: "cycle_started 1 (?V\<lparr>acts := cycle_start_acts 1 ?V\<rparr>)" by blast
  from V have "node_ready ex_env 3 1 1 ?V =
           (case node_ready_driver ex_env 3 1 ?V of
              Inl f \<Rightarrow> Inl f
            | Inr w1 \<Rightarrow>
                if driver (nodes w1 1) \<and> \<not> master (nodes w1 1) then Inr w1
                else resume_node ex_env 3 1 1 w1)" by blast
  then have nr: "node_ready ex_env 3 1 1 ?V = resume_node ex_env 3 1 1 (?V\<lparr>acts := cycle_start_acts 1 ?V\<rparr>)"
    unfolding d using m by (auto simp del: resume_node.simps)
  from V have fields: "\<forall>a \<in> set (target_acts ?V 1).
            pending (state0 (cycle_start_acts 1 ?V a)) = required (state0 (acts ?V a)) \<and>
            required (state0 (cycle_start_acts 1 ?V a)) = required (state0 (acts ?V a)) \<and>
            a_status (cycle_start_acts 1 ?V a) = NOT_TRIGGERED" by blast
  then have f: "pending (state0 (cycle_start_acts 1 ?V 1)) = 3"
    "required (state0 (cycle_start_acts 1 ?V 1)) = 3"
    "a_status (cycle_start_acts 1 ?V 1) = NOT_TRIGGERED"
    "pending (state0 (cycle_start_acts 1 ?V 2)) = 1"
    unfolding ta using rq by simp_all
  from U hu(2) obtain wk where
    wk: "trace wk = trace ?U @ [Log_graph_not_finished 1] @
                 map (dump_line ?U) (rt_target_list (nodes ?U 1)) @
                 [Signal_target (t_activation (rt_target (nodes ?U 1))) (t_data (rt_target (nodes ?U 1)))]"
      "node_ready_driver ex_env 3 1 ?U =
                 (case process_node ex_env 3 (t_data (rt_target (nodes ?U 1))) wk of
                    Inl f \<Rightarrow> Inl f
                  | Inr w2 \<Rightarrow> Inr (w2\<lparr>acts := cycle_start_acts 1 w2\<rparr>))"
    by blast
  have t: "trace wk =
            [Log_graph_not_finished 1,
             Log_state (Some 1) ''drv'' 3 0 0 0 0 0 NOT_TRIGGERED,
             Log_state (Some 1) ''drv'' 3 0 0 0 0 0 NOT_TRIGGERED,
             Log_state (Some 2) ''sink'' 1 0 0 0 0 0 NOT_TRIGGERED,
             Signal_target 1 1]"
    unfolding wk(1) by (simp add: ex_defs target_of_def dump_line_def Let_def)
  have dd: "t_data (rt_target (nodes ?U 1)) = 1" by (simp add: ex_defs)
  from wk(2) [unfolded dd] t have
    "\<exists>wk. trace wk =
            [Log_graph_not_finished 1,
             Log_state (Some 1) ''drv'' 3 0 0 0 0 0 NOT_TRIGGERED,
             Log_state (Some 1) ''drv'' 3 0 0 0 0 0 NOT_TRIGGERED,
             Log_state (Some 2) ''sink'' 1 0 0 0 0 0 NOT_TRIGGERED,
             Signal_target 1 1] \<and>
          node_ready_driver ex_env 3 1 ?U =
            (case process_node ex_env 3 1 wk of
               Inl f \<Rightarrow> Inl f
             | Inr w2 \<Rightarrow> Inr (w2\<lparr>acts := cycle_start_acts 1 w2\<rparr>))" by blast
  with hv hu d cs nr ta f show ?thesis by (intro conjI)
qed

text \<open>
  Counterexample to C2 as stated: the driver of the example graph wakes with \<open>running\<close>
  still set while the counter of its own activation stands at 1 of 3. The driver block
  calls the signal function of that target, and the backend processes, before the reset
  loop has run.
\<close>

theorem reset_before_signal_counterexample:
  "1 = driver_node (nodes (ex_graph 1 0 True PW_NODE_STATE_IDLE) 1) \<and>
   target_acts (ex_graph 1 0 True PW_NODE_STATE_IDLE) 1 = [1, 1, 2] \<and>
   pending (state0 (acts (ex_graph 1 0 True PW_NODE_STATE_IDLE) 1)) = 1 \<and>
   required (state0 (acts (ex_graph 1 0 True PW_NODE_STATE_IDLE) 1)) = 3 \<and>
   map_sum id trace (node_ready_driver ex_env 3 1 (ex_graph 1 0 True PW_NODE_STATE_IDLE)) =
     Inr [Log_graph_not_finished 1,
          Log_state (Some 1) ''drv'' 3 0 0 0 0 0 NOT_TRIGGERED,
          Log_state (Some 1) ''drv'' 3 0 0 0 0 0 NOT_TRIGGERED,
          Log_state (Some 2) ''sink'' 1 0 0 0 0 0 NOT_TRIGGERED,
          Signal_target 1 1, Backend_process 1]"
  by (simp add: ex_defs rt_defs target_acts_def Let_def numeral_3_eq_3)

section \<open>The gate of the Start command (C3)\<close>

lemma trace_activate_links:
  "trace (activate_links e n ls w) = trace w @ map Link_activate ls"
  by (induction ls arbitrary: w) (simp_all add: world_simps)

lemma trace_node_activate:
  "trace (node_activate e n w) = trace w @ map Link_activate (node_links (nodes w n))"
  by (simp add: node_activate_def trace_activate_links)

lemma trace_running_requested:
  "trace (running_requested e n w) =
     trace w @ Emit_state_request n PW_NODE_STATE_RUNNING #
       map Link_activate (node_links (nodes w n))"
  by (simp add: running_requested_def trace_node_activate world_simps)

lemma start_node_not_ready:
  assumes "\<not> links_ready (nodes w n)"
  shows "start_node n w = Inr (0, w)"
  using assms by (auto simp: start_node_def links_ready_def Let_def)

lemma start_node_ready:
  assumes "links_ready (nodes w n)"
    and "state_value (info_state (nodes w n)) < state_value PW_NODE_STATE_RUNNING"
  shows "start_node n w = spa_node_send_command n SPA_NODE_COMMAND_Start w"
  using assms by (auto simp: start_node_def links_ready_def Let_def)

lemma set_state_running_eq:
  assumes "active (nodes w n)"
    and "state_value (info_state (nodes w n)) < state_value PW_NODE_STATE_RUNNING"
  shows "pw_node_set_state e n PW_NODE_STATE_RUNNING w =
     (case start_node n (running_requested e n w) of
        Inl f \<Rightarrow> Inl f
      | Inr (res, w') \<Rightarrow>
          if SPA_RESULT_IS_ERROR e res then Inr (res, w')
          else (case (if SPA_RESULT_IS_ASYNC e res then spa_node_sync n res w' else Inr (res, w')) of
                  Inl f \<Rightarrow> Inl f
                | Inr (res', w'') \<Rightarrow> Inr (res', pw_work_queue_add e n res' PW_NODE_STATE_RUNNING w'')))"
proof -
  from assms(2) have "info_state (nodes w n) \<noteq> PW_NODE_STATE_RUNNING" by auto
  then show ?thesis
    using assms(1)
    by (simp add: pw_node_set_state_def set_state_switch_def running_requested_def Let_def
        world_simps split: sum.splits prod.splits)
qed

text \<open>
  Claim C3. Let an active node be in a state below running, also when \<open>start_node\<close>
  reads the state after the links have been activated, and let 0 be neither an error nor an
  asynchronous result. If the ready and used link counts differ (for outputs or for
  inputs), \<open>pw_node_set_state\<close> for running returns 0, sends no Start command, and
  queues the completion of the request on the work queue: the request is deferred, not
  rejected. If the counts agree, the Start command is the next call to the backend (and
  a node without backend dereferences \<open>NULL\<close>).
\<close>

theorem set_state_running_gate:
  assumes "active (nodes w n)"
    and "state_value (info_state (nodes w n)) < state_value PW_NODE_STATE_RUNNING"
    and "state_value (info_state (nodes (running_requested e n w) n))
           < state_value PW_NODE_STATE_RUNNING"
    and "\<not> SPA_RESULT_IS_ERROR e 0" and "\<not> SPA_RESULT_IS_ASYNC e 0"
  shows "(\<not> links_ready (nodes (running_requested e n w) n) \<longrightarrow>
            pw_node_set_state e n PW_NODE_STATE_RUNNING w =
              Inr (0, pw_work_queue_add e n 0 PW_NODE_STATE_RUNNING (running_requested e n w)) \<and>
            Backend_send_command n SPA_NODE_COMMAND_Start
              \<notin> set (drop (length (trace w)) (trace (running_requested e n w)))) \<and>
         (links_ready (nodes (running_requested e n w) n) \<longrightarrow>
            (case node_impl (nodes (running_requested e n w) n) of
               None \<Rightarrow> pw_node_set_state e n PW_NODE_STATE_RUNNING w = Inl Null_backend
             | Some b \<Rightarrow>
                 (\<exists>res w'. pw_node_set_state e n PW_NODE_STATE_RUNNING w = Inr (res, w') \<and>
                    take (Suc (length (trace (running_requested e n w)))) (trace w') =
                      trace (running_requested e n w) @
                        [Backend_send_command n SPA_NODE_COMMAND_Start])))"
proof (intro conjI impI)
  assume nr: "\<not> links_ready (nodes (running_requested e n w) n)"
  show "pw_node_set_state e n PW_NODE_STATE_RUNNING w =
          Inr (0, pw_work_queue_add e n 0 PW_NODE_STATE_RUNNING (running_requested e n w))"
    using assms(4,5)
    by (simp add: set_state_running_eq [OF assms(1,2)] start_node_not_ready [OF nr])
  show "Backend_send_command n SPA_NODE_COMMAND_Start
          \<notin> set (drop (length (trace w)) (trace (running_requested e n w)))"
    by (auto simp: trace_running_requested)
next
  assume r: "links_ready (nodes (running_requested e n w) n)"
  show "case node_impl (nodes (running_requested e n w) n) of
          None \<Rightarrow> pw_node_set_state e n PW_NODE_STATE_RUNNING w = Inl Null_backend
        | Some b \<Rightarrow>
            (\<exists>res w'. pw_node_set_state e n PW_NODE_STATE_RUNNING w = Inr (res, w') \<and>
               take (Suc (length (trace (running_requested e n w)))) (trace w') =
                 trace (running_requested e n w) @
                   [Backend_send_command n SPA_NODE_COMMAND_Start])"
  proof (cases "node_impl (nodes (running_requested e n w) n)")
    case None
    then show ?thesis
      by (simp add: set_state_running_eq [OF assms(1,2)] start_node_ready [OF r assms(3)]
          spa_node_send_command_def)
  next
    case (Some b)
    then show ?thesis
      by (simp add: set_state_running_eq [OF assms(1,2)] start_node_ready [OF r assms(3)]
          spa_node_send_command_def spa_node_sync_def pw_work_queue_add_def world_simps)
  qed
qed

text \<open>
  Witness for C3: node 3 of the example graph, whose one used input link is not ready; with
  links that become ready on activation the same request sends Start.
\<close>

theorem set_state_running_gate_witness:
  "active (nodes (ex_graph 0 0 False PW_NODE_STATE_IDLE) 3) \<and>
   state_value (info_state (nodes (ex_graph 0 0 False PW_NODE_STATE_IDLE) 3)) < state_value PW_NODE_STATE_RUNNING \<and>
   \<not> SPA_RESULT_IS_ERROR ex_env 0 \<and> \<not> SPA_RESULT_IS_ASYNC ex_env 0 \<and>
   \<not> links_ready (nodes (running_requested ex_env 3 (ex_graph 0 0 False PW_NODE_STATE_IDLE)) 3) \<and>
   pw_node_set_state ex_env 3 PW_NODE_STATE_RUNNING (ex_graph 0 0 False PW_NODE_STATE_IDLE) =
     Inr (0, pw_work_queue_add ex_env 3 0 PW_NODE_STATE_RUNNING
               (running_requested ex_env 3 (ex_graph 0 0 False PW_NODE_STATE_IDLE))) \<and>
   trace (running_requested ex_env 3 (ex_graph 0 0 False PW_NODE_STATE_IDLE)) =
     [Emit_state_request 3 PW_NODE_STATE_RUNNING, Link_activate 7] \<and>
   links_ready (nodes (running_requested ex_env_ready 3 (ex_graph 0 0 False PW_NODE_STATE_IDLE)) 3) \<and>
   (\<exists>res w'. pw_node_set_state ex_env_ready 3 PW_NODE_STATE_RUNNING (ex_graph 0 0 False PW_NODE_STATE_IDLE) = Inr (res, w') \<and>
      take 3 (trace w') =
        [Emit_state_request 3 PW_NODE_STATE_RUNNING, Link_activate 7,
         Backend_send_command 3 SPA_NODE_COMMAND_Start])"
proof -
  let ?w = "ex_graph 0 0 False PW_NODE_STATE_IDLE"
  have a: "active (nodes ?w 3)" by (simp add: ex_defs)
  have b: "state_value (info_state (nodes ?w 3)) < state_value PW_NODE_STATE_RUNNING"
    by (simp add: ex_defs)
  have c: "state_value (info_state (nodes (running_requested ex_env 3 ?w) 3))
             < state_value PW_NODE_STATE_RUNNING"
    by (simp add: ex_defs main_defs)
  have c': "state_value (info_state (nodes (running_requested ex_env_ready 3 ?w) 3))
             < state_value PW_NODE_STATE_RUNNING"
    by (simp add: ex_defs main_defs)
  have d: "\<not> SPA_RESULT_IS_ERROR ex_env 0" "\<not> SPA_RESULT_IS_ASYNC ex_env 0"
    "\<not> SPA_RESULT_IS_ERROR ex_env_ready 0" "\<not> SPA_RESULT_IS_ASYNC ex_env_ready 0"
    by (simp_all add: ex_defs)
  have nr: "\<not> links_ready (nodes (running_requested ex_env 3 ?w) 3)"
    by (simp add: ex_defs main_defs)
  have r: "links_ready (nodes (running_requested ex_env_ready 3 ?w) 3)"
    by (simp add: ex_defs main_defs)
  have tr: "trace (running_requested ex_env 3 ?w) = [Emit_state_request 3 PW_NODE_STATE_RUNNING, Link_activate 7]"
    "trace (running_requested ex_env_ready 3 ?w) = [Emit_state_request 3 PW_NODE_STATE_RUNNING, Link_activate 7]"
    by (simp_all add: ex_defs main_defs)
  have impl: "node_impl (nodes (running_requested ex_env_ready 3 ?w) 3) = Some ex_backend"
    by (simp add: ex_defs main_defs)
  from set_state_running_gate [OF a b c d(1,2)] nr
  have 1: "pw_node_set_state ex_env 3 PW_NODE_STATE_RUNNING ?w =
     Inr (0, pw_work_queue_add ex_env 3 0 PW_NODE_STATE_RUNNING (running_requested ex_env 3 ?w))"
    by blast
  from set_state_running_gate [OF a b c' d(3,4)] r impl tr(2)
  have 2: "\<exists>res w'. pw_node_set_state ex_env_ready 3 PW_NODE_STATE_RUNNING ?w = Inr (res, w') \<and>
      take 3 (trace w') =
        [Emit_state_request 3 PW_NODE_STATE_RUNNING, Link_activate 7,
         Backend_send_command 3 SPA_NODE_COMMAND_Start]"
    by (simp add: numeral_3_eq_3)
  from a b d(1,2) nr 1 tr(1) r 2 show ?thesis by blast
qed

section \<open>State requests on a node without backend (C4)\<close>

lemma add_node_info_state:
  "info_state (nodes (add_node this drv w) m) = info_state (nodes w m)"
  "info_error (nodes (add_node this drv w) m) = info_error (nodes w m)"
  "info_change_mask (nodes (add_node this drv w) m) = info_change_mask (nodes w m)"
  "global (nodes (add_node this drv w) m) = global (nodes w m)"
  "trace (add_node this drv w) = trace w"
  by (simp_all add: add_node_def Let_def inc_required_simps world_simps)

lemma do_node_add_info_state:
  "info_state (nodes (do_node_add this w) m) = info_state (nodes w m)"
  "info_error (nodes (do_node_add this w) m) = info_error (nodes w m)"
  "info_change_mask (nodes (do_node_add this w) m) = info_change_mask (nodes w m)"
  "global (nodes (do_node_add this w) m) = global (nodes w m)"
  "trace (do_node_add this w) = trace w"
  by (simp_all add: do_node_add_def Let_def add_node_info_state world_simps)

lemma emit_info_changed_info_state:
  "info_state (nodes (emit_info_changed n w) m) = info_state (nodes w m)"
  "info_error (nodes (emit_info_changed n w) m) = info_error (nodes w m)"
  by (simp_all add: emit_info_changed_def Let_def world_simps split: option.splits)

lemma node_update_state_info_state:
  "info_state (nodes (node_update_state n st err w) n) = st"
  by (cases st)
     (simp_all add: node_update_state_def Let_def world_simps emit_info_changed_info_state
       do_node_add_info_state)

lemma suspend_node_info_state:
  "info_state (nodes (snd (suspend_node e n w)) n) = PW_NODE_STATE_SUSPENDED"
  by (simp add: suspend_node_def Let_def node_update_state_info_state split: prod.splits)

lemma pw_work_queue_add_info_state:
  "info_state (nodes (pw_work_queue_add e n res st w) m) = info_state (nodes w m)"
  by (simp add: pw_work_queue_add_def world_simps)

lemma spa_node_sync_info_state:
  "spa_node_sync n seq w = Inr (r, w') \<Longrightarrow> nodes w' = nodes w"
  by (auto simp: spa_node_sync_def world_simps split: option.splits)

lemma set_state_suspended_result:
  assumes "info_state (nodes w n) \<noteq> PW_NODE_STATE_SUSPENDED"
    and "pw_node_set_state e n PW_NODE_STATE_SUSPENDED w = Inr (res, w')"
  shows "info_state (nodes w' n) = PW_NODE_STATE_SUSPENDED"
proof -
  obtain r1 w1 where s: "suspend_node e n (emit (Emit_state_request n PW_NODE_STATE_SUSPENDED) w) = (r1, w1)"
    by (cases "suspend_node e n (emit (Emit_state_request n PW_NODE_STATE_SUSPENDED) w)")
  then have st: "info_state (nodes w1 n) = PW_NODE_STATE_SUSPENDED"
    using suspend_node_info_state [of e n "emit (Emit_state_request n PW_NODE_STATE_SUSPENDED) w"]
    by simp
  from assms s st show ?thesis
    by (auto simp: pw_node_set_state_def set_state_switch_def Let_def
        pw_work_queue_add_info_state
        split: if_splits sum.splits prod.splits dest!: spa_node_sync_info_state)
qed

lemma set_state_suspended_no_ports:
  assumes "info_state (nodes w n) \<noteq> PW_NODE_STATE_SUSPENDED"
    and "input_ports (nodes w n) = []" and "output_ports (nodes w n) = []"
    and "\<not> SPA_RESULT_IS_ASYNC e 0"
  shows "\<exists>w'. pw_node_set_state e n PW_NODE_STATE_SUSPENDED w = Inr (0, w')"
  using assms
  by (simp add: pw_node_set_state_def set_state_switch_def Let_def suspend_node_def world_simps)

lemma set_state_creating_stays:
  assumes "info_state (nodes w n) = PW_NODE_STATE_CREATING"
    and "\<not> SPA_RESULT_IS_ASYNC e 0"
    and "s \<noteq> PW_NODE_STATE_SUSPENDED"
    and "s = PW_NODE_STATE_RUNNING \<longrightarrow> \<not> active (nodes w n)"
  shows "\<exists>w'. pw_node_set_state e n s w = Inr (0, w') \<and>
              info_state (nodes w' n) = PW_NODE_STATE_CREATING"
  using assms
  by (cases s)
     (auto simp: pw_node_set_state_def set_state_switch_def Let_def pause_node_def world_simps
       pw_work_queue_add_info_state)

text \<open>
  Claim C4, as amended. \<open>pw_node_set_state\<close> never looks at the backend before it
  changes the state. On a node in the creating state without backend (0 not being an
  asynchronous result): a request for suspended leaves \<open>info.state\<close> equal to suspended
  whenever the call returns, and it returns 0 when the node has no ports; a request for
  creating, idle or error, or for running on an inactive node, returns 0 with
  \<open>info.state\<close> still creating.
\<close>

theorem set_state_without_backend:
  assumes "info_state (nodes w n) = PW_NODE_STATE_CREATING"
    and "node_impl (nodes w n) = None"
    and "\<not> SPA_RESULT_IS_ASYNC e 0"
  shows "(\<forall>res w'. pw_node_set_state e n PW_NODE_STATE_SUSPENDED w = Inr (res, w') \<longrightarrow>
            info_state (nodes w' n) = PW_NODE_STATE_SUSPENDED) \<and>
         (input_ports (nodes w n) = [] \<and> output_ports (nodes w n) = [] \<longrightarrow>
            (\<exists>w'. pw_node_set_state e n PW_NODE_STATE_SUSPENDED w = Inr (0, w') \<and>
                  info_state (nodes w' n) = PW_NODE_STATE_SUSPENDED)) \<and>
         (s \<noteq> PW_NODE_STATE_SUSPENDED \<and> (s = PW_NODE_STATE_RUNNING \<longrightarrow> \<not> active (nodes w n)) \<longrightarrow>
            (\<exists>w'. pw_node_set_state e n s w = Inr (0, w') \<and>
                  info_state (nodes w' n) = PW_NODE_STATE_CREATING))"
proof -
  have ne: "info_state (nodes w n) \<noteq> PW_NODE_STATE_SUSPENDED" using assms(1) by simp
  show ?thesis
    using set_state_suspended_result [OF ne] set_state_suspended_no_ports [OF ne _ _ assms(3)]
      set_state_creating_stays [OF assms(1) assms(3)]
    by blast
qed

text \<open>Witness for C4: a freshly allocated node, asked for suspended and for idle.\<close>

theorem set_state_without_backend_witness:
  "info_state (nodes ex_world 0) = PW_NODE_STATE_CREATING \<and>
   node_impl (nodes ex_world 0) = None \<and>
   \<not> SPA_RESULT_IS_ASYNC ex_env 0 \<and>
   (\<exists>w'. pw_node_set_state ex_env 0 PW_NODE_STATE_SUSPENDED ex_world = Inr (0, w') \<and>
         info_state (nodes w' 0) = PW_NODE_STATE_SUSPENDED) \<and>
   (\<exists>w'. pw_node_set_state ex_env 0 PW_NODE_STATE_IDLE ex_world = Inr (0, w') \<and>
         info_state (nodes w' 0) = PW_NODE_STATE_CREATING)"
proof -
  have a: "info_state (nodes ex_world 0) = PW_NODE_STATE_CREATING" by (simp add: ex_defs)
  have b: "node_impl (nodes ex_world 0) = None" by (simp add: ex_defs)
  have c: "\<not> SPA_RESULT_IS_ASYNC ex_env 0" by (simp add: ex_defs)
  have p: "input_ports (nodes ex_world 0) = [] \<and> output_ports (nodes ex_world 0) = []"
    by (simp add: ex_defs)
  have s: "PW_NODE_STATE_IDLE \<noteq> PW_NODE_STATE_SUSPENDED \<and>
           (PW_NODE_STATE_IDLE = PW_NODE_STATE_RUNNING \<longrightarrow> \<not> active (nodes ex_world 0))"
    by simp
  from set_state_without_backend [OF a b c, of PW_NODE_STATE_IDLE] a b c p s
  show ?thesis by blast
qed

text \<open>
  Counterexample to C4 as stated: a node in the creating state, without backend and without
  ports, is asked for suspended; the call returns 0 and the node is suspended, the
  state-changed and info-changed events having been emitted.
\<close>

theorem set_state_without_backend_counterexample:
  "info_state (nodes ex_world 0) = PW_NODE_STATE_CREATING \<and>
   node_impl (nodes ex_world 0) = None \<and>
   (\<exists>w'. pw_node_set_state ex_env 0 PW_NODE_STATE_SUSPENDED ex_world = Inr (0, w') \<and>
         info_state (nodes w' 0) = PW_NODE_STATE_SUSPENDED \<and>
         trace w' = [Emit_state_request 0 PW_NODE_STATE_SUSPENDED,
                     Emit_state_changed 0 PW_NODE_STATE_CREATING PW_NODE_STATE_SUSPENDED None,
                     Emit_info_changed 0 PW_NODE_STATE_SUSPENDED None])"
  by (simp add: ex_defs main_defs Let_def)

section \<open>Asynchronous errors (C5)\<close>

lemma find_work_matches_obj:
  "find (work_matches n q) xs = Some it \<Longrightarrow> wi_obj it = n"
  by (auto simp: find_Some_iff work_matches_def)

lemma node_update_state_error_new:
  assumes "info_state (nodes w n) \<noteq> PW_NODE_STATE_ERROR"
  shows "info_state (nodes (node_update_state n PW_NODE_STATE_ERROR err w) n) = PW_NODE_STATE_ERROR"
    and "info_error (nodes (node_update_state n PW_NODE_STATE_ERROR err w) n) = err"
    and "trace (node_update_state n PW_NODE_STATE_ERROR err w) =
           trace w @ [Emit_state_changed n (info_state (nodes w n)) PW_NODE_STATE_ERROR err,
                      Emit_info_changed n PW_NODE_STATE_ERROR err] @
             resource_infos n (case global (nodes w n) of None \<Rightarrow> [] | Some rs \<Rightarrow> rs)"
  using assms
  by (simp_all add: node_update_state_def emit_info_changed_def Let_def world_simps
      split: option.splits)

lemma node_update_state_same:
  assumes "info_state (nodes w n) = st"
  shows "node_update_state n st err w = w"
  using assms by (simp add: node_update_state_def)

text \<open>
  Claim C5, as amended. Let the backend deliver a result with an asynchronous sequence and
  an error value, and let the node's work queue hold an entry for that sequence. If the
  node is not yet in the error state, it enters it, \<open>info.error\<close> is the string
  \<open>error changing node state: \<close> followed by the result in decimal, and the listeners
  receive, in this order, the state-changed event with that string, the info-changed
  event, the info of every bound resource, and the result event. If the node is already in
  the error state, \<open>node_update_state\<close> returns at once: \<open>info.error\<close> keeps its old
  value and only the result event is emitted.
\<close>

theorem async_error_result:
  assumes "SPA_RESULT_IS_ASYNC e seq" and "SPA_RESULT_IS_ERROR e res"
    and "find (work_matches n (SPA_RESULT_ASYNC_SEQ e seq)) (work (nodes w n)) = Some it"
  shows "(info_state (nodes w n) \<noteq> PW_NODE_STATE_ERROR \<longrightarrow>
            info_state (nodes (node_result e n seq res w) n) = PW_NODE_STATE_ERROR \<and>
            info_error (nodes (node_result e n seq res w) n) =
              Some (''error changing node state: '' @ show_int res) \<and>
            trace (node_result e n seq res w) =
              trace w @
                [Emit_state_changed n (info_state (nodes w n)) PW_NODE_STATE_ERROR
                   (Some (''error changing node state: '' @ show_int res)),
                 Emit_info_changed n PW_NODE_STATE_ERROR
                   (Some (''error changing node state: '' @ show_int res))] @
                resource_infos n (case global (nodes w n) of None \<Rightarrow> [] | Some rs \<Rightarrow> rs) @
                [Emit_result n seq res]) \<and>
         (info_state (nodes w n) = PW_NODE_STATE_ERROR \<longrightarrow>
            info_state (nodes (node_result e n seq res w) n) = PW_NODE_STATE_ERROR \<and>
            info_error (nodes (node_result e n seq res w) n) = info_error (nodes w n) \<and>
            trace (node_result e n seq res w) = trace w @ [Emit_result n seq res])"
proof (intro conjI impI)
  let ?w1 = "upd_node n (\<lambda>x. x\<lparr>last_error := res\<rparr>) w"
  let ?err = "Some (''error changing node state: '' @ show_int res)"
  have f: "find (work_matches n (SPA_RESULT_ASYNC_SEQ e seq)) (work (nodes ?w1 n)) = Some it"
    using assms(3) by (simp add: world_simps)
  have obj: "wi_obj it = n" using assms(3) by (rule find_work_matches_obj)
  have nr: "node_result e n seq res w =
      emit (Emit_result n seq res)
        (upd_node n (\<lambda>x. x\<lparr>work := remove_first (work_matches n (SPA_RESULT_ASYNC_SEQ e seq)) (work x)\<rparr>)
           (node_update_state n PW_NODE_STATE_ERROR ?err ?w1))"
    using assms(1,2) f obj
    by (simp add: node_result_def pw_work_queue_complete_def on_state_complete_def Let_def)
  {
    assume ne: "info_state (nodes w n) \<noteq> PW_NODE_STATE_ERROR"
    then have ne1: "info_state (nodes ?w1 n) \<noteq> PW_NODE_STATE_ERROR" by (simp add: world_simps)
    show "info_state (nodes (node_result e n seq res w) n) = PW_NODE_STATE_ERROR"
      by (simp add: nr world_simps node_update_state_error_new(1) [OF ne1])
    show "info_error (nodes (node_result e n seq res w) n) = ?err"
      by (simp add: nr world_simps node_update_state_error_new(2) [OF ne1])
    show "trace (node_result e n seq res w) =
            trace w @
              [Emit_state_changed n (info_state (nodes w n)) PW_NODE_STATE_ERROR ?err,
               Emit_info_changed n PW_NODE_STATE_ERROR ?err] @
              resource_infos n (case global (nodes w n) of None \<Rightarrow> [] | Some rs \<Rightarrow> rs) @
              [Emit_result n seq res]"
      by (simp add: nr world_simps node_update_state_error_new(3) [OF ne1])
  }
  {
    assume eq: "info_state (nodes w n) = PW_NODE_STATE_ERROR"
    then have eq1: "info_state (nodes ?w1 n) = PW_NODE_STATE_ERROR" by (simp add: world_simps)
    show "info_state (nodes (node_result e n seq res w) n) = PW_NODE_STATE_ERROR"
      using eq by (simp add: nr world_simps node_update_state_same [OF eq1])
    show "info_error (nodes (node_result e n seq res w) n) = info_error (nodes w n)"
      by (simp add: nr world_simps node_update_state_same [OF eq1])
    show "trace (node_result e n seq res w) = trace w @ [Emit_result n seq res]"
      by (simp add: nr world_simps node_update_state_same [OF eq1])
  }
qed

text \<open>Witness for C5: node 4 of the example graph, idle, receives error -5 for sequence 7.\<close>

lemma show_int_example: "show_int (- 5) = ''-5''"
  by code_simp

theorem async_error_result_witness:
  "SPA_RESULT_IS_ASYNC ex_env 1073741831 \<and> SPA_RESULT_IS_ERROR ex_env (- 5) \<and>
   find (work_matches 4 (SPA_RESULT_ASYNC_SEQ ex_env 1073741831))
        (work (nodes (ex_graph 0 0 False PW_NODE_STATE_IDLE) 4)) =
     Some \<lparr>wi_obj = 4, wi_seq = Some 7, wi_res = 1073741831, wi_data = PW_NODE_STATE_RUNNING\<rparr> \<and>
   info_state (nodes (ex_graph 0 0 False PW_NODE_STATE_IDLE) 4) \<noteq> PW_NODE_STATE_ERROR \<and>
   info_state (nodes (node_result ex_env 4 1073741831 (- 5) (ex_graph 0 0 False PW_NODE_STATE_IDLE)) 4) =
     PW_NODE_STATE_ERROR \<and>
   info_error (nodes (node_result ex_env 4 1073741831 (- 5) (ex_graph 0 0 False PW_NODE_STATE_IDLE)) 4) =
     Some ''error changing node state: -5'' \<and>
   trace (node_result ex_env 4 1073741831 (- 5) (ex_graph 0 0 False PW_NODE_STATE_IDLE)) =
     [Emit_state_changed 4 PW_NODE_STATE_IDLE PW_NODE_STATE_ERROR (Some ''error changing node state: -5''),
      Emit_info_changed 4 PW_NODE_STATE_ERROR (Some ''error changing node state: -5''),
      Resource_info 11 4,
      Emit_result 4 1073741831 (- 5)]"
proof -
  let ?w = "ex_graph 0 0 False PW_NODE_STATE_IDLE"
  have a: "SPA_RESULT_IS_ASYNC ex_env 1073741831" by (simp add: ex_defs)
  have b: "SPA_RESULT_IS_ERROR ex_env (- 5)" by (simp add: ex_defs)
  have c: "find (work_matches 4 (SPA_RESULT_ASYNC_SEQ ex_env 1073741831)) (work (nodes ?w 4)) =
     Some \<lparr>wi_obj = 4, wi_seq = Some 7, wi_res = 1073741831, wi_data = PW_NODE_STATE_RUNNING\<rparr>"
    by (simp add: ex_defs work_matches_def)
  have d: "info_state (nodes ?w 4) \<noteq> PW_NODE_STATE_ERROR" by (simp add: ex_defs)
  note e = show_int_example
  have g: "info_state (nodes ?w 4) = PW_NODE_STATE_IDLE" "global (nodes ?w 4) = Some [11]"
    "trace ?w = []"
    by (simp_all add: ex_defs)
  from async_error_result [OF a b c] a b c d show ?thesis
    by (simp add: e g)
qed

text \<open>
  Counterexample to C5 as stated: the same result delivered while node 4 is already in the
  error state (with no error string). No state-changed event is emitted and no error
  string is recorded.
\<close>

theorem async_error_result_counterexample:
  "SPA_RESULT_IS_ASYNC ex_env 1073741831 \<and> SPA_RESULT_IS_ERROR ex_env (- 5) \<and>
   find (work_matches 4 (SPA_RESULT_ASYNC_SEQ ex_env 1073741831))
        (work (nodes (ex_graph 0 0 False PW_NODE_STATE_ERROR) 4)) =
     Some \<lparr>wi_obj = 4, wi_seq = Some 7, wi_res = 1073741831, wi_data = PW_NODE_STATE_RUNNING\<rparr> \<and>
   trace (node_result ex_env 4 1073741831 (- 5) (ex_graph 0 0 False PW_NODE_STATE_ERROR)) =
     [Emit_result 4 1073741831 (- 5)] \<and>
   info_error (nodes (node_result ex_env 4 1073741831 (- 5) (ex_graph 0 0 False PW_NODE_STATE_ERROR)) 4) = None"
  by (simp add: ex_defs main_defs node_result_def pw_work_queue_complete_def on_state_complete_def
      work_matches_def Let_def)

section \<open>The master flag (C6)\<close>

lemma add_node_flags:
  "master (nodes (add_node this drv w) m) = master (nodes w m)"
  "driver (nodes (add_node this drv w) m) = driver (nodes w m)"
  "driver_node (nodes (add_node this drv w) m) = driver_node (nodes w m)"
  by (simp_all add: add_node_def Let_def inc_required_nodes world_simps)

lemma remove_node_flags:
  "master (nodes (remove_node this w) m) = master (nodes w m)"
  "driver (nodes (remove_node this w) m) = driver (nodes w m)"
  "driver_node (nodes (remove_node this w) m) = driver_node (nodes w m)"
  by (simp_all add: remove_node_def unlink_target_def Let_def dec_required_nodes world_simps)

lemma do_move_nodes_flags:
  "master (nodes (do_move_nodes this drv w) m) = master (nodes w m)"
  "driver (nodes (do_move_nodes this drv w) m) = driver (nodes w m)"
  "driver_node (nodes (do_move_nodes this drv w) m) = driver_node (nodes w m)"
  by (simp_all add: do_move_nodes_def add_node_flags remove_node_flags)

lemma set_driver_changed_master:
  assumes "pw_node_set_driver n d w = Inr (r, w')"
    and "(case d of None \<Rightarrow> n | Some x \<Rightarrow> x) \<noteq> driver_node (nodes w n)"
  shows "master (nodes w' n) \<longleftrightarrow> driver_node (nodes w' n) = n \<and> driver (nodes w' n)"
  using assms
  by (auto simp: pw_node_set_driver_def Let_def world_simps do_move_nodes_flags
      split: option.splits if_splits)

lemma check_properties_driver:
  "driver (nodes (check_properties e n w) n) =
     (case properties (nodes w n) ''node.driver'' of Some str \<Rightarrow> parse_bool e str | None \<Rightarrow> False)"
  by (auto simp: check_properties_def Let_def world_simps split: option.splits)

lemma pw_node_new_master:
  assumes "pw_node_new e (Some (this, act)) name props w = (p, w')"
  shows "p = Some this \<and> master (nodes w' this) \<and> driver_node (nodes w' this) = this \<and>
         driver (nodes w' this) =
           (case (case props of None \<Rightarrow> Map.empty | Some q \<Rightarrow> q) ''node.driver'' of
              Some str \<Rightarrow> parse_bool e str | None \<Rightarrow> False)"
  using assms
  by (auto simp: pw_node_new_def Let_def world_simps check_properties_driver split: option.splits)

text \<open>
  Claim C6, as amended. \<open>pw_node_new\<close> returns a node that is its own driver with
  \<open>master\<close> set, whatever its driver flag, which is what the property
  \<open>node.driver\<close> says (false when absent). Every call of \<open>pw_node_set_driver\<close>
  that changes \<open>driver_node\<close> and returns leaves \<open>master\<close> equivalent to
  the conjunction of \<open>driver_node\<close> being the node itself and the driver flag being set; a call that names
  the current driver returns 0 and changes nothing.
\<close>

theorem master_flag_maintained:
  "(pw_node_new e (Some (this, act)) name props w = (p, w1) \<longrightarrow>
      p = Some this \<and> master (nodes w1 this) \<and> driver_node (nodes w1 this) = this \<and>
      driver (nodes w1 this) =
        (case (case props of None \<Rightarrow> Map.empty | Some q \<Rightarrow> q) ''node.driver'' of
           Some str \<Rightarrow> parse_bool e str | None \<Rightarrow> False)) \<and>
   (pw_node_set_driver n d w = Inr (r, w2) \<and>
      (case d of None \<Rightarrow> n | Some x \<Rightarrow> x) \<noteq> driver_node (nodes w n) \<longrightarrow>
      (master (nodes w2 n) \<longleftrightarrow> driver_node (nodes w2 n) = n \<and> driver (nodes w2 n))) \<and>
   ((case d of None \<Rightarrow> n | Some x \<Rightarrow> x) = driver_node (nodes w n) \<longrightarrow>
      pw_node_set_driver n d w = Inr (0, w))"
proof -
  have 1: "pw_node_new e (Some (this, act)) name props w = (p, w1) \<longrightarrow>
      p = Some this \<and> master (nodes w1 this) \<and> driver_node (nodes w1 this) = this \<and>
      driver (nodes w1 this) =
        (case (case props of None \<Rightarrow> Map.empty | Some q \<Rightarrow> q) ''node.driver'' of
           Some str \<Rightarrow> parse_bool e str | None \<Rightarrow> False)"
    using pw_node_new_master [of e this act name props w p w1] by simp
  have 2: "pw_node_set_driver n d w = Inr (r, w2) \<and>
      (case d of None \<Rightarrow> n | Some x \<Rightarrow> x) \<noteq> driver_node (nodes w n) \<longrightarrow>
      (master (nodes w2 n) \<longleftrightarrow> driver_node (nodes w2 n) = n \<and> driver (nodes w2 n))"
    using set_driver_changed_master [of n d w r w2] by blast
  have 3: "(case d of None \<Rightarrow> n | Some x \<Rightarrow> x) = driver_node (nodes w n) \<longrightarrow>
      pw_node_set_driver n d w = Inr (0, w)"
    by (simp add: pw_node_set_driver_def Let_def)
  from 1 2 3 show ?thesis by blast
qed

text \<open>
  Witness for C6: a new node with \<open>node.driver = true\<close>; node 2 of the example graph
  made its own driver; node 2 given the driver it already has.
\<close>

lemma ex_new_driver:
  "\<exists>w1. pw_node_new ex_env (Some (5, 5)) (Some ''src'') (Some [''node.driver'' \<mapsto> ''true'']) ex_world
          = (Some 5, w1)"
  by (simp add: pw_node_new_def Let_def)

lemma ex_set_driver_self:
  "\<exists>w2. pw_node_set_driver 2 None (ex_graph 0 0 False PW_NODE_STATE_IDLE) = Inr (0, w2)"
  by (simp add: pw_node_set_driver_def Let_def ex_defs upd_node_def emit_def)

theorem master_flag_maintained_witness:
  "(\<exists>w1. pw_node_new ex_env (Some (5, 5)) (Some ''src'') (Some [''node.driver'' \<mapsto> ''true'']) ex_world
            = (Some 5, w1) \<and>
          master (nodes w1 5) \<and> driver_node (nodes w1 5) = 5 \<and> driver (nodes w1 5)) \<and>
   (\<exists>w2. pw_node_set_driver 2 None (ex_graph 0 0 False PW_NODE_STATE_IDLE) = Inr (0, w2) \<and>
          (case None of None \<Rightarrow> 2 | Some x \<Rightarrow> x) \<noteq> driver_node (nodes (ex_graph 0 0 False PW_NODE_STATE_IDLE) 2) \<and>
          (master (nodes w2 2) \<longleftrightarrow> driver_node (nodes w2 2) = 2 \<and> driver (nodes w2 2))) \<and>
   (case Some 1 of None \<Rightarrow> 2 | Some x \<Rightarrow> x) = driver_node (nodes (ex_graph 0 0 False PW_NODE_STATE_IDLE) 2) \<and>
   pw_node_set_driver 2 (Some 1) (ex_graph 0 0 False PW_NODE_STATE_IDLE) =
     Inr (0, ex_graph 0 0 False PW_NODE_STATE_IDLE)"
proof -
  from ex_new_driver obtain w1 where
    1: "pw_node_new ex_env (Some (5, 5)) (Some ''src'') (Some [''node.driver'' \<mapsto> ''true'']) ex_world
          = (Some 5, w1)" by blast
  from ex_set_driver_self obtain w2 where
    2: "pw_node_set_driver 2 None (ex_graph 0 0 False PW_NODE_STATE_IDLE) = Inr (0, w2)" by blast
  have 3: "(case None of None \<Rightarrow> 2 | Some x \<Rightarrow> x) \<noteq> driver_node (nodes (ex_graph 0 0 False PW_NODE_STATE_IDLE) 2)"
    by (simp add: ex_defs)
  have 4: "(case Some 1 of None \<Rightarrow> 2 | Some x \<Rightarrow> x) = driver_node (nodes (ex_graph 0 0 False PW_NODE_STATE_IDLE) 2)"
    by (simp add: ex_defs)
  have 5: "parse_bool ex_env ''true''" by (simp add: ex_defs)
  from master_flag_maintained [where e = ex_env and this = 5 and act = 5 and name = "Some ''src''"
      and props = "Some [''node.driver'' \<mapsto> ''true'']" and w = ex_world and p = "Some 5"
      and ?w1.0 = w1]
  have a: "master (nodes w1 5) \<and> driver_node (nodes w1 5) = 5 \<and> driver (nodes w1 5)"
    using 1 5 by simp
  from master_flag_maintained [where n = 2 and d = None
      and w = "ex_graph 0 0 False PW_NODE_STATE_IDLE" and r = 0 and ?w2.0 = w2] 2 3
  have b: "master (nodes w2 2) \<longleftrightarrow> driver_node (nodes w2 2) = 2 \<and> driver (nodes w2 2)"
    by simp
  from master_flag_maintained [where n = 2 and d = "Some 1"
      and w = "ex_graph 0 0 False PW_NODE_STATE_IDLE"] 4
  have c: "pw_node_set_driver 2 (Some 1) (ex_graph 0 0 False PW_NODE_STATE_IDLE) =
     Inr (0, ex_graph 0 0 False PW_NODE_STATE_IDLE)"
    by blast
  from 1 2 3 4 a b c show ?thesis by blast
qed

text \<open>
  Counterexample to C6 as stated: \<open>pw_node_new\<close> without properties returns a node with
  \<open>master\<close> set whose driver flag is clear.
\<close>

theorem master_flag_counterexample:
  "\<exists>w1. pw_node_new ex_env (Some (5, 5)) None None ex_world = (Some 5, w1) \<and>
         master (nodes w1 5) \<and> driver_node (nodes w1 5) = 5 \<and> \<not> driver (nodes w1 5)"
  by (simp add: pw_node_new_def check_properties_def Let_def ex_defs upd_node_def)

section \<open>A wake that finds the previous cycle unfinished (C7)\<close>

text \<open>
  The direct call returns when the driver is not exported and has a backend: its
  \<open>process_node\<close> marks the graph completed and clears \<open>running\<close> without a
  further call.
\<close>

lemma process_node_driver_returns:
  assumes "this = driver_node (nodes w this)" and "\<not> exported (nodes w this)"
    and "node_impl (nodes w this) = Some b"
  shows "\<exists>w'. process_node e (Suc k) this w = Inr w' \<and>
              trace w' = trace w @ [Backend_process this] \<and>
              \<not> running (acts w' (rt_activation (nodes w' this)))"
  using assms
  by (simp add: Let_def clock_gettime_def upd_act_def emit_def split: prod.splits)

text \<open>
  Claim C7. If \<open>running\<close> is still true when the driver wakes, \<open>node_ready\<close>
  first logs the warning and one line for every entry of the driver's target list, with the
  entry's \<open>required\<close>, \<open>signal_time\<close>, \<open>awake_time\<close>,
  \<open>finish_time\<close>, the two differences and \<open>status\<close>, all as they were at the
  wake; then it calls the signal function of the driver's own target; and only when that
  call has returned it resets the targets and sets \<open>running\<close>.
\<close>

theorem node_ready_stalled:
  assumes "n = driver_node (nodes w n)"
    and "running (acts w (rt_activation (nodes w n)))"
  shows "node_ready e k n status w =
           (case node_ready_driver e k n w of
              Inl f \<Rightarrow> Inl f
            | Inr w1 \<Rightarrow>
                if driver (nodes w1 n) \<and> \<not> master (nodes w1 n) then Inr w1
                else resume_node e k n status w1) \<and>
         (\<exists>wk. nodes wk = nodes w \<and> acts wk = acts w \<and>
           trace wk = trace w @ [Log_graph_not_finished n] @
             map (\<lambda>r. Log_state (t_node (target_of w r))
                    (case t_node (target_of w r) of Some m \<Rightarrow> info_name (nodes w m) | None \<Rightarrow> [])
                    (required (state0 (acts w (t_activation (target_of w r)))))
                    (signal_time (acts w (t_activation (target_of w r))))
                    (awake_time (acts w (t_activation (target_of w r))))
                    (finish_time (acts w (t_activation (target_of w r))))
                    (awake_time (acts w (t_activation (target_of w r))) -
                       signal_time (acts w (t_activation (target_of w r))))
                    (finish_time (acts w (t_activation (target_of w r))) -
                       awake_time (acts w (t_activation (target_of w r))))
                    (a_status (acts w (t_activation (target_of w r)))))
                 (rt_target_list (nodes w n)) @
             [Signal_target (t_activation (rt_target (nodes w n))) (t_data (rt_target (nodes w n)))] \<and>
           (case process_node e k (t_data (rt_target (nodes w n))) wk of
              Inl f \<Rightarrow> node_ready_driver e k n w = Inl f
            | Inr w2 \<Rightarrow>
                (\<exists>es. trace w2 = trace wk @ es) \<and>
                node_ready_driver e k n w =
                  Inr (upd_act (rt_activation (nodes w2 n)) (\<lambda>x. x\<lparr>running := True\<rparr>)
                         (reset_targets (rt_target_list (nodes w2 n)) w2))))"
proof -
  note a = node_ready_eq [OF assms(1), of e k status]
  note b = node_ready_driver_stalled [OF assms(2), of e k]
  from a b show ?thesis by (rule conjI)
qed

text \<open>Witness for C7: the driver of the example graph wakes with \<open>running\<close> still set.\<close>

theorem node_ready_stalled_witness:
  "1 = driver_node (nodes (ex_graph 1 0 True PW_NODE_STATE_IDLE) 1) \<and>
   running (acts (ex_graph 1 0 True PW_NODE_STATE_IDLE)
             (rt_activation (nodes (ex_graph 1 0 True PW_NODE_STATE_IDLE) 1))) \<and>
   (\<exists>wk. trace wk =
            [Log_graph_not_finished 1,
             Log_state (Some 1) ''drv'' 3 0 0 0 0 0 NOT_TRIGGERED,
             Log_state (Some 1) ''drv'' 3 0 0 0 0 0 NOT_TRIGGERED,
             Log_state (Some 2) ''sink'' 1 0 0 0 0 0 NOT_TRIGGERED,
             Signal_target 1 1] \<and>
          (case process_node ex_env 3 1 wk of
              Inl f \<Rightarrow> node_ready_driver ex_env 3 1 (ex_graph 1 0 True PW_NODE_STATE_IDLE) = Inl f
            | Inr w2 \<Rightarrow>
                (\<exists>es. trace w2 = trace wk @ es) \<and>
                node_ready_driver ex_env 3 1 (ex_graph 1 0 True PW_NODE_STATE_IDLE) =
                  Inr (upd_act (rt_activation (nodes w2 1)) (\<lambda>x. x\<lparr>running := True\<rparr>)
                         (reset_targets (rt_target_list (nodes w2 1)) w2))))"
proof -
  let ?w = "ex_graph 1 0 True PW_NODE_STATE_IDLE"
  have d0: "1 = driver_node (nodes ?w 1)" by (simp add: ex_defs)
  have h: "running (acts ?w (rt_activation (nodes ?w 1)))" by (simp add: ex_defs)
  from node_ready_stalled [OF d0 h, of ex_env 3 1] obtain wk where
    wk: "nodes wk = nodes ?w" "acts wk = acts ?w"
      "trace wk = trace ?w @ [Log_graph_not_finished 1] @
             map (\<lambda>r. Log_state (t_node (target_of ?w r))
                    (case t_node (target_of ?w r) of Some m \<Rightarrow> info_name (nodes ?w m) | None \<Rightarrow> [])
                    (required (state0 (acts ?w (t_activation (target_of ?w r)))))
                    (signal_time (acts ?w (t_activation (target_of ?w r))))
                    (awake_time (acts ?w (t_activation (target_of ?w r))))
                    (finish_time (acts ?w (t_activation (target_of ?w r))))
                    (awake_time (acts ?w (t_activation (target_of ?w r))) -
                       signal_time (acts ?w (t_activation (target_of ?w r))))
                    (finish_time (acts ?w (t_activation (target_of ?w r))) -
                       awake_time (acts ?w (t_activation (target_of ?w r))))
                    (a_status (acts ?w (t_activation (target_of ?w r)))))
                 (rt_target_list (nodes ?w 1)) @
             [Signal_target (t_activation (rt_target (nodes ?w 1))) (t_data (rt_target (nodes ?w 1)))]"
      "case process_node ex_env 3 (t_data (rt_target (nodes ?w 1))) wk of
              Inl f \<Rightarrow> node_ready_driver ex_env 3 1 ?w = Inl f
            | Inr w2 \<Rightarrow>
                (\<exists>es. trace w2 = trace wk @ es) \<and>
                node_ready_driver ex_env 3 1 ?w =
                  Inr (upd_act (rt_activation (nodes w2 1)) (\<lambda>x. x\<lparr>running := True\<rparr>)
                         (reset_targets (rt_target_list (nodes w2 1)) w2))"
    by blast
  have t: "trace wk =
            [Log_graph_not_finished 1,
             Log_state (Some 1) ''drv'' 3 0 0 0 0 0 NOT_TRIGGERED,
             Log_state (Some 1) ''drv'' 3 0 0 0 0 0 NOT_TRIGGERED,
             Log_state (Some 2) ''sink'' 1 0 0 0 0 0 NOT_TRIGGERED,
             Signal_target 1 1]"
    unfolding wk(3) by (simp add: ex_defs target_of_def)
  have d: "t_data (rt_target (nodes ?w 1)) = 1" by (simp add: ex_defs)
  from wk(4) [unfolded d] t h d0 show ?thesis by blast
qed

section \<open>The quantum computed from \<open>node.latency\<close> (C8)\<close>

subsection \<open>\<open>flp2\<close> rounds down to a power of two\<close>

lemma flp2_eq_smear: "flp2 x = flp2_smear x - drop_bit 1 (flp2_smear x)"
  by (simp only: flp2_def flp2_smear_def Let_def)

lemma smear_step:
  fixes s x :: u32
  assumes "\<forall>n. bit s n \<longleftrightarrow> (\<exists>j<a. bit x (n + j))"
  shows "\<forall>n. bit (s OR drop_bit a s) n \<longleftrightarrow> (\<exists>j<2*a. bit x (n + j))"
proof
  fix n
  have "bit (s OR drop_bit a s) n \<longleftrightarrow> bit s n \<or> bit s (a + n)"
    by (simp add: bit_or_iff bit_drop_bit_eq)
  also have "\<dots> \<longleftrightarrow> (\<exists>j<a. bit x (n + j)) \<or> (\<exists>j<a. bit x (a + n + j))"
    using assms by simp
  also have "\<dots> \<longleftrightarrow> (\<exists>j<2*a. bit x (n + j))"
  proof
    assume "(\<exists>j<a. bit x (n + j)) \<or> (\<exists>j<a. bit x (a + n + j))"
    then show "\<exists>j<2*a. bit x (n + j)"
    proof
      assume "\<exists>j<a. bit x (n + j)"
      then obtain j where "j < a" "bit x (n + j)" by blast
      then show ?thesis by (intro exI [of _ j]) simp
    next
      assume "\<exists>j<a. bit x (a + n + j)"
      then obtain j where "j < a" "bit x (a + n + j)" by blast
      then show ?thesis by (intro exI [of _ "a + j"]) (simp add: ac_simps)
    qed
  next
    assume "\<exists>j<2*a. bit x (n + j)"
    then obtain j where j: "j < 2 * a" "bit x (n + j)" by blast
    show "(\<exists>j<a. bit x (n + j)) \<or> (\<exists>j<a. bit x (a + n + j))"
    proof (cases "j < a")
      case True with j show ?thesis by blast
    next
      case False
      with j have "j - a < a" "bit x (a + n + (j - a))" by (simp_all add: ac_simps)
      then show ?thesis by blast
    qed
  qed
  finally show "bit (s OR drop_bit a s) n \<longleftrightarrow> (\<exists>j<2*a. bit x (n + j))" .
qed

lemma bit_flp2_smear: "bit (flp2_smear x) n \<longleftrightarrow> (\<exists>j<32. bit x (n + j))"
proof -
  have 0: "\<forall>n. bit x n \<longleftrightarrow> (\<exists>j<1. bit x (n + j))" by simp
  note 1 = smear_step [OF 0]
  note 2 = smear_step [OF 1 [simplified]]
  note 3 = smear_step [OF 2 [simplified]]
  note 4 = smear_step [OF 3 [simplified]]
  note 5 = smear_step [OF 4 [simplified]]
  show ?thesis using 5 by (simp add: flp2_smear_def Let_def)
qed

lemma top_bit_ex:
  fixes x :: u32
  assumes "x \<noteq> 0"
  shows "\<exists>k<32. bit x k \<and> (\<forall>n>k. \<not> bit x n)"
proof -
  let ?S = "{n. bit x n}"
  have fin: "finite ?S"
  proof (rule finite_subset)
    show "?S \<subseteq> {..<32}" using bit_imp_le_length [of x] by auto
  qed simp
  from assms have ne: "?S \<noteq> {}"
    by (auto simp: bit_eq_iff)
  define k where "k = Max ?S"
  have "k \<in> ?S" unfolding k_def using fin ne by (rule Max_in)
  moreover have "\<forall>n>k. \<not> bit x n"
    using Max_ge [OF fin] unfolding k_def by (metis mem_Collect_eq not_le)
  moreover have "k < 32" using \<open>k \<in> ?S\<close> bit_imp_le_length [of x k] by simp
  ultimately show ?thesis by blast
qed

lemma flp2_smear_mask:
  fixes x :: u32
  assumes k: "k < 32" "bit x k" "\<forall>n>k. \<not> bit x n"
  shows "flp2_smear x = mask (Suc k)"
proof (rule bit_eqI)
  fix n
  assume "possible_bit TYPE(u32) n"
  then have n: "n < 32" by (simp add: possible_bit_word)
  show "bit (flp2_smear x) n \<longleftrightarrow> bit (mask (Suc k) :: u32) n"
  proof
    assume "bit (flp2_smear x) n"
    then obtain j where "j < 32" "bit x (n + j)" by (auto simp: bit_flp2_smear)
    with k(3) have "n + j \<le> k" by (meson not_le)
    then show "bit (mask (Suc k) :: u32) n" using n by (simp add: bit_mask_iff possible_bit_word)
  next
    assume "bit (mask (Suc k) :: u32) n"
    then have "n \<le> k" by (simp add: bit_mask_iff)
    then have "k - n < 32" "bit x (n + (k - n))" using k by simp_all
    then show "bit (flp2_smear x) n" unfolding bit_flp2_smear by blast
  qed
qed

lemma drop_bit_mask_Suc:
  assumes "k < 32"
  shows "drop_bit 1 (mask (Suc k) :: u32) = mask k"
proof (rule bit_eqI)
  fix n
  assume "possible_bit TYPE(u32) n"
  show "bit (drop_bit 1 (mask (Suc k) :: u32)) n \<longleftrightarrow> bit (mask k :: u32) n"
    using assms by (auto simp: bit_drop_bit_eq bit_mask_iff possible_bit_word)
qed

lemma flp2_pow:
  fixes x :: u32
  assumes k: "k < 32" "bit x k" "\<forall>n>k. \<not> bit x n"
  shows "flp2 x = 2 ^ k"
proof -
  have "flp2 x = mask (Suc k) - mask k"
    by (simp only: flp2_eq_smear flp2_smear_mask [OF k] drop_bit_mask_Suc [OF k(1)])
  also have "\<dots> = 2 ^ k" by (simp add: mask_eq_exp_minus_1)
  finally show ?thesis .
qed

lemma bit_nat_ge:
  fixes m :: nat
  assumes "bit m k"
  shows "2 ^ k \<le> m"
proof (rule ccontr)
  assume "\<not> 2 ^ k \<le> m"
  then have "m div 2 ^ k = 0" by simp
  with assms show False by (simp add: bit_iff_odd)
qed

lemma top_bit_bounds:
  fixes x :: u32
  assumes k: "k < 32" "bit x k" "\<forall>n>k. \<not> bit x n"
  shows "2 ^ k \<le> unat x \<and> unat x < 2 ^ Suc k"
proof
  from k(2) have "bit (unat x) k" by (simp add: bit_unsigned_iff)
  then show "2 ^ k \<le> unat x" by (rule bit_nat_ge)
next
  have "take_bit (Suc k) x = x"
  proof (rule bit_eqI)
    fix n
    show "bit (take_bit (Suc k) x) n \<longleftrightarrow> bit x n"
      using k(3) by (auto simp: bit_take_bit_iff not_less_eq intro: Suc_leI)
  qed
  then have "unat x = take_bit (Suc k) (unat x)"
    by (metis unsigned_take_bit_eq)
  then show "unat x < 2 ^ Suc k"
    by (metis take_bit_nat_less_exp)
qed

lemma flp2_largest_power:
  fixes x :: u32
  assumes "x \<noteq> 0"
  shows "\<exists>k. unat (flp2 x) = 2 ^ k \<and> 2 ^ k \<le> unat x \<and> unat x < 2 ^ Suc k"
proof -
  from top_bit_ex [OF assms] obtain k where k: "k < 32" "bit x k" "\<forall>n>k. \<not> bit x n"
    by blast
  have "(2::nat) ^ k < 2 ^ 32"
    using k(1) by (intro power_strict_increasing) simp_all
  moreover have "(2::u32) ^ k = of_nat (2 ^ k)" by simp
  ultimately have "unat ((2::u32) ^ k) = 2 ^ k"
    by (simp only: unat_of_nat) simp
  then have "unat (flp2 x) = 2 ^ k"
    by (simp only: flp2_pow [OF k])
  with top_bit_bounds [OF k] show ?thesis by blast
qed

lemma flp2_zero: "flp2 0 = 0"
  by (simp add: flp2_def)

subsection \<open>\<open>check_properties\<close>\<close>

lemma nodes_upd_node: "nodes (upd_node n f w) = (nodes w)(n := f (nodes w n))"
  by (simp add: upd_node_def)

lemma check_properties_latency_Some:
  assumes "properties (nodes w n) ''node.latency'' = Some str"
    and "sscanf_latency e str = Some (num, denom)" and "denom \<noteq> 0"
  shows "quantum_size (nodes (check_properties e n w) n) = flp2 (num * 48000 div denom)"
  using assms by (simp add: check_properties_def Let_def nodes_upd_node upd_node_def)

lemma check_properties_latency_None:
  assumes "properties (nodes w n) ''node.latency'' = None"
  shows "quantum_size (nodes (check_properties e n w) n) = DEFAULT_QUANTUM e"
  using assms by (simp add: check_properties_def Let_def nodes_upd_node upd_node_def)

lemma latency_value_unat:
  "unat (num * 48000 div denom :: u32) = (unat num * 48000 mod 2 ^ 32) div unat denom"
  by (simp add: unat_div unat_word_ariths)

text \<open>
  Claim C8, as amended. When \<open>node.latency\<close> parses as \<open>num/denom\<close> with a non-zero
  \<open>denom\<close>, \<open>check_properties\<close> sets \<open>quantum_size\<close> to \<open>flp2\<close> of the
  32-bit value \<open>v\<close> of \<open>num * 48000 / denom\<close>, where the product is taken modulo
  \<open>2 ^ 32\<close> and the constant 48000 does not depend on the backend. When \<open>v\<close> is not
  zero this is the largest power of two not exceeding \<open>v\<close>; when \<open>v\<close> is zero it is
  zero. When the property is absent \<open>quantum_size\<close> is \<open>DEFAULT_QUANTUM\<close>.
\<close>

theorem check_properties_quantum:
  "(properties (nodes w n) ''node.latency'' = Some str \<and>
      sscanf_latency e str = Some (num, denom) \<and> denom \<noteq> 0 \<longrightarrow>
        quantum_size (nodes (check_properties e n w) n) = flp2 (num * 48000 div denom) \<and>
        unat (num * 48000 div denom) = (unat num * 48000 mod 2 ^ 32) div unat denom \<and>
        (if num * 48000 div denom = 0
         then flp2 (num * 48000 div denom) = 0
         else \<exists>k. unat (flp2 (num * 48000 div denom)) = 2 ^ k \<and>
                  2 ^ k \<le> unat (num * 48000 div denom) \<and>
                  unat (num * 48000 div denom) < 2 ^ Suc k)) \<and>
   (properties (nodes w n) ''node.latency'' = None \<longrightarrow>
      quantum_size (nodes (check_properties e n w) n) = DEFAULT_QUANTUM e)"
proof (intro conjI impI)
  assume a: "properties (nodes w n) ''node.latency'' = Some str \<and>
      sscanf_latency e str = Some (num, denom) \<and> denom \<noteq> 0"
  then show "quantum_size (nodes (check_properties e n w) n) = flp2 (num * 48000 div denom)"
    using check_properties_latency_Some [of w n str e num denom] by simp
  show "unat (num * 48000 div denom) = (unat num * 48000 mod 2 ^ 32) div unat denom"
    by (rule latency_value_unat)
  show "if num * 48000 div denom = 0
         then flp2 (num * 48000 div denom) = 0
         else \<exists>k. unat (flp2 (num * 48000 div denom)) = 2 ^ k \<and>
                  2 ^ k \<le> unat (num * 48000 div denom) \<and>
                  unat (num * 48000 div denom) < 2 ^ Suc k"
    using flp2_largest_power [of "num * 48000 div denom"] by (simp add: flp2_zero)
next
  assume "properties (nodes w n) ''node.latency'' = None"
  then show "quantum_size (nodes (check_properties e n w) n) = DEFAULT_QUANTUM e"
    by (rule check_properties_latency_None)
qed

text \<open>Witness for C8: the latency 256/48000, and no latency property.\<close>

theorem check_properties_quantum_witness:
  "properties (nodes (ex_latency_world (Some ''256/48000'')) 0) ''node.latency'' = Some ''256/48000'' \<and>
   sscanf_latency ex_env ''256/48000'' = Some (256, 48000) \<and>
   quantum_size (nodes (check_properties ex_env 0 (ex_latency_world (Some ''256/48000''))) 0) = 256 \<and>
   properties (nodes (ex_latency_world None) 0) ''node.latency'' = None \<and>
   quantum_size (nodes (check_properties ex_env 0 (ex_latency_world None)) 0) = 1024"
proof -
  have a: "properties (nodes (ex_latency_world (Some ''256/48000'')) 0) ''node.latency'' = Some ''256/48000''"
    by (simp add: ex_defs)
  have b: "sscanf_latency ex_env ''256/48000'' = Some (256, 48000)" by (simp add: ex_defs)
  have c: "properties (nodes (ex_latency_world None) 0) ''node.latency'' = None"
    by (simp add: ex_defs)
  have f: "flp2 256 = 256" by (simp add: flp2_def Let_def)
  have q: "DEFAULT_QUANTUM ex_env = 1024" by (simp add: ex_defs)
  from check_properties_quantum [of "ex_latency_world (Some ''256/48000'')" 0 "''256/48000''" ex_env 256 48000] a b
  have 1: "quantum_size (nodes (check_properties ex_env 0 (ex_latency_world (Some ''256/48000''))) 0) = 256"
    by (simp add: f)
  from check_properties_quantum [of "ex_latency_world None" 0 "''256/48000''" ex_env 256 48000] c
  have 2: "quantum_size (nodes (check_properties ex_env 0 (ex_latency_world None)) 0) = 1024"
    by (simp add: q)
  from a b c 1 2 show ?thesis by blast
qed

text \<open>
  Counterexample to C8 as stated: for the latency 0/1 the quantum is 0, which is no power
  of two; for 89479/1 the product overflows 32 bits and the quantum is 16384, although
  twice that does not exceed 89479 * 48000.
\<close>

theorem check_properties_quantum_counterexample:
  "sscanf_latency ex_env ''0/1'' = Some (0, 1) \<and>
   quantum_size (nodes (check_properties ex_env 0 (ex_latency_world (Some ''0/1''))) 0) = 0 \<and>
   (\<forall>k. (0::nat) \<noteq> 2 ^ k) \<and>
   sscanf_latency ex_env ''89479/1'' = Some (89479, 1) \<and>
   quantum_size (nodes (check_properties ex_env 0 (ex_latency_world (Some ''89479/1''))) 0) = 16384 \<and>
   (2::nat) * 16384 \<le> 89479 * 48000 div 1"
  by (simp add: check_properties_def ex_defs upd_node_def Let_def flp2_def)

section \<open>Attaching a backend (C9)\<close>

text \<open>
  Claim C9. When a backend is already attached, \<open>pw_node_set_implementation\<close> returns
  \<open>-EEXIST\<close> and changes nothing. Otherwise it stores the backend, installs the
  callbacks and the listener, and calls the backend's \<open>set_io\<close> for
  \<open>SPA_IO_Position\<close> with the position field and for \<open>SPA_IO_Clock\<close> with the
  clock field of the node's activation record, in this order; it keeps each pointer that
  the backend accepted and returns the result of adding the listener.
\<close>

theorem set_implementation_once:
  "(node_impl (nodes w n) = Some old \<longrightarrow>
      pw_node_set_implementation n b w = (- EEXIST, w)) \<and>
   (node_impl (nodes w n) = None \<longrightarrow>
      (\<exists>w'. pw_node_set_implementation n b w = (impl_add_listener b, w') \<and>
            node_impl (nodes w' n) = Some b \<and>
            trace w' = trace w @
              [Backend_set_callbacks n, Backend_add_listener n,
               Backend_set_io n SPA_IO_Position (Activation_position (rt_activation (nodes w n))),
               Backend_set_io n SPA_IO_Clock (Activation_clock (rt_activation (nodes w n)))] \<and>
            (0 \<le> impl_set_io b SPA_IO_Position \<longrightarrow>
               rt_position (nodes w' n) = Some (Activation_position (rt_activation (nodes w n)))) \<and>
            (0 \<le> impl_set_io b SPA_IO_Clock \<longrightarrow>
               rt_clock (nodes w' n) = Some (Activation_clock (rt_activation (nodes w n))))))"
  by (simp add: pw_node_set_implementation_def Let_def world_simps)

text \<open>Witness for C9: a node of the example graph, which has a backend, and a fresh node.\<close>

theorem set_implementation_once_witness:
  "node_impl (nodes (ex_graph 0 0 False PW_NODE_STATE_IDLE) 1) = Some ex_backend \<and>
   pw_node_set_implementation 1 ex_backend (ex_graph 0 0 False PW_NODE_STATE_IDLE) =
     (- EEXIST, ex_graph 0 0 False PW_NODE_STATE_IDLE) \<and>
   node_impl (nodes ex_world 0) = None \<and>
   (\<exists>w'. pw_node_set_implementation 0 ex_backend ex_world = (0, w') \<and>
         node_impl (nodes w' 0) = Some ex_backend \<and>
         trace w' =
           [Backend_set_callbacks 0, Backend_add_listener 0,
            Backend_set_io 0 SPA_IO_Position (Activation_position 0),
            Backend_set_io 0 SPA_IO_Clock (Activation_clock 0)] \<and>
         rt_position (nodes w' 0) = Some (Activation_position 0) \<and>
         rt_clock (nodes w' 0) = Some (Activation_clock 0))"
proof -
  have a: "node_impl (nodes (ex_graph 0 0 False PW_NODE_STATE_IDLE) 1) = Some ex_backend"
    by (simp add: ex_defs)
  have b: "node_impl (nodes ex_world 0) = None" by (simp add: ex_defs)
  have c: "impl_add_listener ex_backend = 0" "0 \<le> impl_set_io ex_backend SPA_IO_Position"
    "0 \<le> impl_set_io ex_backend SPA_IO_Clock" "trace ex_world = []"
    "rt_activation (nodes ex_world 0) = 0"
    by (simp_all add: ex_defs)
  from set_implementation_once [of "ex_graph 0 0 False PW_NODE_STATE_IDLE" 1 ex_backend ex_backend] a
  have 1: "pw_node_set_implementation 1 ex_backend (ex_graph 0 0 False PW_NODE_STATE_IDLE) =
     (- EEXIST, ex_graph 0 0 False PW_NODE_STATE_IDLE)" by blast
  from set_implementation_once [of ex_world 0 ex_backend ex_backend] b c
  have 2: "\<exists>w'. pw_node_set_implementation 0 ex_backend ex_world = (0, w') \<and>
         node_impl (nodes w' 0) = Some ex_backend \<and>
         trace w' =
           [Backend_set_callbacks 0, Backend_add_listener 0,
            Backend_set_io 0 SPA_IO_Position (Activation_position 0),
            Backend_set_io 0 SPA_IO_Clock (Activation_clock 0)] \<and>
         rt_position (nodes w' 0) = Some (Activation_position 0) \<and>
         rt_clock (nodes w' 0) = Some (Activation_clock 0)"
    by simp
  from a b 1 2 show ?thesis by blast
qed

section \<open>A \<open>NULL\<close> driver and an unchanged driver (C10)\<close>

text \<open>What \<open>do_move_nodes\<close> leaves of a node that becomes its own driver.\<close>

lemma add_node_trace: "trace (add_node this drv w) = trace w"
  by (simp add: add_node_def Let_def inc_required_def world_simps)

lemma remove_node_trace: "trace (remove_node this w) = trace w"
  by (simp add: remove_node_def unlink_target_def Let_def dec_required_def world_simps)

lemma do_move_nodes_trace: "trace (do_move_nodes this drv w) = trace w"
  by (simp add: do_move_nodes_def add_node_trace remove_node_trace)

lemma add_node_self_targets:
  "rt_driver_target (nodes (add_node this this w) this) =
     \<lparr>t_node = Some this, t_activation = rt_activation (nodes w this), t_data = this\<rparr>"
  "rt_target_list (nodes (add_node this this w) this) =
     rt_target_list (nodes w this) @ [Driver_target this, Target this]"
  by (simp_all add: add_node_def Let_def inc_required_def world_simps)

lemma remove_node_fields:
  "rt_activation (nodes (remove_node this w) m) = rt_activation (nodes w m)"
  "source_loop (nodes (remove_node this w) m) = source_loop (nodes w m)"
  "rt_target_list (nodes (remove_node this w) m) =
     removeAll (Target this) (removeAll (Driver_target this) (rt_target_list (nodes w m)))"
  by (simp_all add: remove_node_def unlink_target_def Let_def dec_required_def world_simps)

lemma do_move_nodes_self:
  assumes "source_loop (nodes w this)"
  shows "rt_driver_target (nodes (do_move_nodes this this w) this) =
           \<lparr>t_node = Some this, t_activation = rt_activation (nodes w this), t_data = this\<rparr>"
    and "rt_target_list (nodes (do_move_nodes this this w) this) =
           removeAll (Target this) (removeAll (Driver_target this) (rt_target_list (nodes w this))) @
             [Driver_target this, Target this]"
  using assms by (simp_all add: do_move_nodes_def add_node_self_targets remove_node_fields)

text \<open>
  Claim C10. \<open>pw_node_set_driver\<close> with a \<open>NULL\<close> driver does what it does with the
  node itself as driver, and that makes the node its own driver: when the node was driven by
  another node, the call returns 0 with \<open>driver_node\<close> the node itself and
  \<open>master\<close> equal to the driver flag, after the driver-changed event and the call of
  the backend for the position of the node's own activation; a node that is in the data loop
  has its two entries moved to the end of its own target list, its driver entry leading to
  its own activation. (Without a backend the call of \<open>spa_node_set_io\<close> dereferences
  \<open>NULL\<close>.) When the requested driver (the node itself for \<open>NULL\<close>) is the current
  \<open>driver_node\<close>, the call returns 0 and the world is unchanged: no driver-changed
  event, no call to the backend, no target entry moved.
\<close>

theorem set_driver_null_is_self:
  "pw_node_set_driver n None w = pw_node_set_driver n (Some n) w \<and>
   (driver_node (nodes w n) \<noteq> n \<and> node_impl (nodes w n) = None \<longrightarrow>
      pw_node_set_driver n None w = Inl Null_backend) \<and>
   (driver_node (nodes w n) \<noteq> n \<and> node_impl (nodes w n) \<noteq> None \<longrightarrow>
      (\<exists>w'. pw_node_set_driver n None w = Inr (0, w') \<and>
            driver_node (nodes w' n) = n \<and>
            master (nodes w' n) = driver (nodes w n) \<and>
            trace w' = trace w @
              [Emit_driver_changed n (driver_node (nodes w n)) n,
               Backend_set_io n SPA_IO_Position (Activation_position (rt_activation (nodes w n)))] \<and>
            (source_loop (nodes w n) \<longrightarrow>
               rt_driver_target (nodes w' n) =
                 \<lparr>t_node = Some n, t_activation = rt_activation (nodes w n), t_data = n\<rparr> \<and>
               rt_target_list (nodes w' n) =
                 removeAll (Target n) (removeAll (Driver_target n) (rt_target_list (nodes w n))) @
                   [Driver_target n, Target n]))) \<and>
   ((case d of None \<Rightarrow> n | Some x \<Rightarrow> x) = driver_node (nodes w n) \<longrightarrow>
      pw_node_set_driver n d w = Inr (0, w))"
proof (intro conjI impI)
  show "pw_node_set_driver n None w = pw_node_set_driver n (Some n) w"
    by (simp add: pw_node_set_driver_def)
next
  assume "driver_node (nodes w n) \<noteq> n \<and> node_impl (nodes w n) = None"
  then show "pw_node_set_driver n None w = Inl Null_backend"
    by (simp add: pw_node_set_driver_def Let_def world_simps)
next
  assume a: "driver_node (nodes w n) \<noteq> n \<and> node_impl (nodes w n) \<noteq> None"
  then obtain b where b: "node_impl (nodes w n) = Some b" by blast
  let ?w1 = "emit (Emit_driver_changed n (driver_node (nodes w n)) n)
               (upd_node n (\<lambda>x. x\<lparr>driver_node := n\<rparr>)
                 (upd_node n (\<lambda>x. x\<lparr>master := (driver x \<and> n = n)\<rparr>) w))"
  let ?area = "Activation_position (rt_activation (nodes w n))"
  let ?w2 = "emit (Backend_set_io n SPA_IO_Position ?area) ?w1"
  let ?w3 = "if impl_set_io b SPA_IO_Position < 0 then ?w2
             else upd_node n (\<lambda>x. x\<lparr>rt_position := Some ?area\<rparr>) ?w2"
  have r: "pw_node_set_driver n None w = Inr (0, do_move_nodes n n ?w3)"
    using a b by (simp add: pw_node_set_driver_def Let_def world_simps)
  have f3: "driver_node (nodes ?w3 n) = n" "master (nodes ?w3 n) = driver (nodes w n)"
    "trace ?w3 = trace w @ [Emit_driver_changed n (driver_node (nodes w n)) n,
                             Backend_set_io n SPA_IO_Position ?area]"
    "source_loop (nodes ?w3 n) = source_loop (nodes w n)"
    "rt_activation (nodes ?w3 n) = rt_activation (nodes w n)"
    "rt_target_list (nodes ?w3 n) = rt_target_list (nodes w n)"
    by (simp_all add: world_simps)
  have "driver_node (nodes (do_move_nodes n n ?w3) n) = n"
    "master (nodes (do_move_nodes n n ?w3) n) = driver (nodes w n)"
    "trace (do_move_nodes n n ?w3) = trace w @
       [Emit_driver_changed n (driver_node (nodes w n)) n, Backend_set_io n SPA_IO_Position ?area]"
    using f3 by (simp_all only: do_move_nodes_flags do_move_nodes_trace)
  moreover have "source_loop (nodes w n) \<longrightarrow>
      rt_driver_target (nodes (do_move_nodes n n ?w3) n) =
        \<lparr>t_node = Some n, t_activation = rt_activation (nodes w n), t_data = n\<rparr> \<and>
      rt_target_list (nodes (do_move_nodes n n ?w3) n) =
        removeAll (Target n) (removeAll (Driver_target n) (rt_target_list (nodes w n))) @
          [Driver_target n, Target n]"
  proof
    assume "source_loop (nodes w n)"
    then have s: "source_loop (nodes ?w3 n)" using f3(4) by simp
    show "rt_driver_target (nodes (do_move_nodes n n ?w3) n) =
        \<lparr>t_node = Some n, t_activation = rt_activation (nodes w n), t_data = n\<rparr> \<and>
      rt_target_list (nodes (do_move_nodes n n ?w3) n) =
        removeAll (Target n) (removeAll (Driver_target n) (rt_target_list (nodes w n))) @
          [Driver_target n, Target n]"
      unfolding do_move_nodes_self [OF s] f3(5,6) by simp
  qed
  ultimately show "\<exists>w'. pw_node_set_driver n None w = Inr (0, w') \<and>
            driver_node (nodes w' n) = n \<and>
            master (nodes w' n) = driver (nodes w n) \<and>
            trace w' = trace w @
              [Emit_driver_changed n (driver_node (nodes w n)) n,
               Backend_set_io n SPA_IO_Position (Activation_position (rt_activation (nodes w n)))] \<and>
            (source_loop (nodes w n) \<longrightarrow>
               rt_driver_target (nodes w' n) =
                 \<lparr>t_node = Some n, t_activation = rt_activation (nodes w n), t_data = n\<rparr> \<and>
               rt_target_list (nodes w' n) =
                 removeAll (Target n) (removeAll (Driver_target n) (rt_target_list (nodes w n))) @
                   [Driver_target n, Target n])"
    using r by blast
next
  assume "(case d of None \<Rightarrow> n | Some x \<Rightarrow> x) = driver_node (nodes w n)"
  then show "pw_node_set_driver n d w = Inr (0, w)"
    by (simp add: pw_node_set_driver_def Let_def)
qed

text \<open>
  Witness for C10: node 2 of the example graph, driven by node 1, and node 5, which has no
  backend.
\<close>

theorem set_driver_null_is_self_witness:
  "pw_node_set_driver 2 None (ex_graph 0 0 False PW_NODE_STATE_IDLE) =
     pw_node_set_driver 2 (Some 2) (ex_graph 0 0 False PW_NODE_STATE_IDLE) \<and>
   driver_node (nodes (ex_graph 0 0 False PW_NODE_STATE_IDLE) 2) = 1 \<and>
   node_impl (nodes (ex_graph 0 0 False PW_NODE_STATE_IDLE) 2) = Some ex_backend \<and>
   source_loop (nodes (ex_graph 0 0 False PW_NODE_STATE_IDLE) 2) \<and>
   (\<exists>w'. pw_node_set_driver 2 None (ex_graph 0 0 False PW_NODE_STATE_IDLE) = Inr (0, w') \<and>
      driver_node (nodes w' 2) = 2 \<and>
      \<not> master (nodes w' 2) \<and>
      trace w' = [Emit_driver_changed 2 1 2,
                  Backend_set_io 2 SPA_IO_Position (Activation_position 2)] \<and>
      rt_driver_target (nodes w' 2) = \<lparr>t_node = Some 2, t_activation = 2, t_data = 2\<rparr> \<and>
      rt_target_list (nodes w' 2) = [Driver_target 2, Target 2]) \<and>
   driver_node (nodes (ex_graph 0 0 False PW_NODE_STATE_IDLE) 5) = 0 \<and>
   node_impl (nodes (ex_graph 0 0 False PW_NODE_STATE_IDLE) 5) = None \<and>
   pw_node_set_driver 5 None (ex_graph 0 0 False PW_NODE_STATE_IDLE) = Inl Null_backend \<and>
   (case Some 1 of None \<Rightarrow> 2 | Some x \<Rightarrow> x) = driver_node (nodes (ex_graph 0 0 False PW_NODE_STATE_IDLE) 2) \<and>
   pw_node_set_driver 2 (Some 1) (ex_graph 0 0 False PW_NODE_STATE_IDLE) =
     Inr (0, ex_graph 0 0 False PW_NODE_STATE_IDLE)"
proof -
  let ?G = "ex_graph 0 0 False PW_NODE_STATE_IDLE"
  have h2: "driver_node (nodes ?G 2) = 1" "node_impl (nodes ?G 2) = Some ex_backend"
    "source_loop (nodes ?G 2)" "driver (nodes ?G 2) = False" "rt_activation (nodes ?G 2) = 2"
    "rt_target_list (nodes ?G 2) = [Driver_target 2]" "trace ?G = []"
    by (simp_all add: ex_defs)
  have h5: "driver_node (nodes ?G 5) = 0" "node_impl (nodes ?G 5) = None"
    by (simp_all add: ex_defs)
  have a: "(case Some 1 of None \<Rightarrow> 2 | Some x \<Rightarrow> x) = driver_node (nodes ?G 2)"
    by (simp add: ex_defs)
  note T2 = set_driver_null_is_self [of 2 ?G "Some 1"]
  note T5 = set_driver_null_is_self [of 5 ?G "Some 1"]
  from T2 have e: "pw_node_set_driver 2 None ?G = pw_node_set_driver 2 (Some 2) ?G" by blast
  from T2 a have s: "pw_node_set_driver 2 (Some 1) ?G = Inr (0, ?G)" by blast
  have pre5: "driver_node (nodes ?G 5) \<noteq> 5 \<and> node_impl (nodes ?G 5) = None"
    using h5 by simp
  from mp [OF T5 [THEN conjunct2, THEN conjunct1] pre5]
  have n: "pw_node_set_driver 5 None ?G = Inl Null_backend" .
  have pre: "driver_node (nodes ?G 2) \<noteq> 2 \<and> node_impl (nodes ?G 2) \<noteq> None"
    using h2(1,2) by simp
  from mp [OF T2 [THEN conjunct2, THEN conjunct2, THEN conjunct1] pre] obtain w' where w': "pw_node_set_driver 2 None ?G = Inr (0, w')"
    "driver_node (nodes w' 2) = 2" "master (nodes w' 2) = driver (nodes ?G 2)"
    "trace w' = trace ?G @
              [Emit_driver_changed 2 (driver_node (nodes ?G 2)) 2,
               Backend_set_io 2 SPA_IO_Position (Activation_position (rt_activation (nodes ?G 2)))]"
    "source_loop (nodes ?G 2) \<longrightarrow>
               rt_driver_target (nodes w' 2) =
                 \<lparr>t_node = Some 2, t_activation = rt_activation (nodes ?G 2), t_data = 2\<rparr> \<and>
               rt_target_list (nodes w' 2) =
                 removeAll (Target 2) (removeAll (Driver_target 2) (rt_target_list (nodes ?G 2))) @
                   [Driver_target 2, Target 2]"
    by blast
  from w'(3-5) h2 have
    "\<not> master (nodes w' 2)"
    "trace w' = [Emit_driver_changed 2 1 2, Backend_set_io 2 SPA_IO_Position (Activation_position 2)]"
    "rt_driver_target (nodes w' 2) = \<lparr>t_node = Some 2, t_activation = 2, t_data = 2\<rparr>"
    "rt_target_list (nodes w' 2) = [Driver_target 2, Target 2]"
    by simp_all
  with w'(1,2) have "\<exists>w'. pw_node_set_driver 2 None ?G = Inr (0, w') \<and>
      driver_node (nodes w' 2) = 2 \<and>
      \<not> master (nodes w' 2) \<and>
      trace w' = [Emit_driver_changed 2 1 2,
                  Backend_set_io 2 SPA_IO_Position (Activation_position 2)] \<and>
      rt_driver_target (nodes w' 2) = \<lparr>t_node = Some 2, t_activation = 2, t_data = 2\<rparr> \<and>
      rt_target_list (nodes w' 2) = [Driver_target 2, Target 2]" by blast
  with e h2(1-3) h5 n a s show ?thesis by (intro conjI)
qed

end
